theory Spec2Isabelle
  imports Main "HOL-Library.Sublist" "HOL-Library.AList"
begin

section \<open>Python strings\<close>

text \<open>
  A Python \<open>str\<close> is modelled as a \<open>string\<close> whose characters are the code points
  0 to 255 (Latin-1). On this range \<open>str.lower\<close> works character by character, \<open>\s\<close>
  and \<open>str.isspace\<close> accept the twelve code points listed below, \<open>\d\<close> accepts the
  ASCII digits only, and \<open>[A-Z\.]\<close> under \<open>re.IGNORECASE\<close> accepts the ASCII letters
  and the dot only.
\<close>

definition code :: "char \<Rightarrow> nat" where
  "code c = of_char c"

definition isspace :: "char \<Rightarrow> bool" where
  "isspace c = (code c \<in> set [9, 10, 11, 12, 13, 28, 29, 30, 31, 32, 133, 160])"

definition isdigit :: "char \<Rightarrow> bool" where
  "isdigit c = (48 \<le> code c \<and> code c \<le> 57)"

definition isupper_AZ :: "char \<Rightarrow> bool" where
  "isupper_AZ c = (65 \<le> code c \<and> code c \<le> 90)"

definition islower_az :: "char \<Rightarrow> bool" where
  "islower_az c = (97 \<le> code c \<and> code c \<le> 122)"

definition lower_char :: "char \<Rightarrow> char" where
  "lower_char c = (let n = code c in
     if (65 \<le> n \<and> n \<le> 90) \<or> (192 \<le> n \<and> n \<le> 222 \<and> n \<noteq> 215)
     then char_of (n + 32) else c)"

text \<open>\<open>s.lower()\<close>\<close>

definition lower :: "string \<Rightarrow> string" where
  "lower s = map lower_char s"

text \<open>\<open>s.strip()\<close>\<close>

definition strip :: "string \<Rightarrow> string" where
  "strip s = rev (dropWhile isspace (rev (dropWhile isspace s)))"

text \<open>\<open>s.split()\<close>: the maximal runs of non-whitespace characters, in order.\<close>

fun split_from :: "string \<Rightarrow> string \<Rightarrow> string list" where
  "split_from cur [] = (if cur = [] then [] else [cur])"
| "split_from cur (c # cs) =
     (if isspace c then (if cur = [] then split_from [] cs else cur # split_from [] cs)
      else split_from (cur @ [c]) cs)"

definition split :: "string \<Rightarrow> string list" where
  "split s = split_from [] s"

text \<open>\<open>sub in s\<close>\<close>

fun str_in :: "string \<Rightarrow> string \<Rightarrow> bool" where
  "str_in sub [] = (sub = [])"
| "str_in sub (c # cs) = (prefix sub (c # cs) \<or> str_in sub cs)"

text \<open>\<open>x or default\<close> for an optional string: \<open>None\<close> and \<open>""\<close> are both falsy.\<close>

definition truthy :: "string option \<Rightarrow> bool" where
  "truthy x = (case x of None \<Rightarrow> False | Some s \<Rightarrow> s \<noteq> [])"

definition or_else :: "string option \<Rightarrow> string \<Rightarrow> string" where
  "or_else x d = (case x of None \<Rightarrow> d | Some s \<Rightarrow> if s = [] then d else s)"


section \<open>The fragment of Python's \<open>re\<close> that the scraper uses\<close>

text \<open>
  Repetition is only ever applied to a character class in the source, so \<open>Many p lo hi\<close>
  stands for \<open>[p]{lo,hi}\<close> (\<open>hi = None\<close>: unbounded; \<open>+\<close> is \<open>Many p 1 None\<close>,
  \<open>*\<close> is \<open>Many p 0 None\<close>). \<open>Lit ic l\<close> is the literal \<open>l\<close>, compared after
  lower-casing when \<open>ic\<close> (\<open>re.IGNORECASE\<close>). \<open>Eos\<close> is \<open>$\<close> without
  \<open>re.MULTILINE\<close>: the end of the string, or just before a newline that ends it.
  A leading \<open>^\<close> is dropped: it is only used with \<open>re.match\<close>, which starts at
  position 0 anyway.
\<close>

datatype rx =
    Cls "char \<Rightarrow> bool"
  | Lit bool string
  | Many "char \<Rightarrow> bool" nat "nat option"
  | Grp rx
  | Cat rx rx
  | Alt rx rx
  | Eos

text \<open>
  \<open>rmatch r s\<close> lists every way in which \<open>r\<close> matches a prefix of \<open>s\<close>, in the order
  in which the backtracking matcher tries them (greedy repetition: longest first;
  alternation: left first). Each entry is the list of captured groups and the rest of
  the input.
\<close>

fun rmatch :: "rx \<Rightarrow> string \<Rightarrow> (string list \<times> string) list" where
  "rmatch (Cls p) s = (case s of [] \<Rightarrow> [] | c # cs \<Rightarrow> if p c then [([], cs)] else [])"
| "rmatch (Lit ic l) s =
     (if (if ic then lower (take (length l) s) = lower l else take (length l) s = l)
      then [([], drop (length l) s)] else [])"
| "rmatch (Many p lo hi) s =
     (let n = length (takeWhile p s);
          m = (case hi of None \<Rightarrow> n | Some h \<Rightarrow> min h n)
      in map (\<lambda>k. ([], drop k s)) (rev [lo ..< Suc m]))"
| "rmatch (Grp r) s =
     map (\<lambda>(gs, t). (take (length s - length t) s # gs, t)) (rmatch r s)"
| "rmatch (Cat a b) s =
     concat (map (\<lambda>(gs, t). map (\<lambda>(hs, u). (gs @ hs, u)) (rmatch b t)) (rmatch a s))"
| "rmatch (Alt a b) s = rmatch a s @ rmatch b s"
| "rmatch Eos s = (if s = [] \<or> s = [CHR 0x0A] then [([], s)] else [])"

text \<open>\<open>re.match(r, s)\<close>: the first way to match at position 0, if any.\<close>

definition re_match :: "rx \<Rightarrow> string \<Rightarrow> (string list \<times> string) option" where
  "re_match r s = (case rmatch r s of [] \<Rightarrow> None | m # _ \<Rightarrow> Some m)"

text \<open>\<open>re.search(r, s)\<close>: the first position at which \<open>r\<close> matches.\<close>

fun re_search :: "rx \<Rightarrow> string \<Rightarrow> (string list \<times> string) option" where
  "re_search r [] = re_match r []"
| "re_search r (c # cs) =
     (case re_match r (c # cs) of Some m \<Rightarrow> Some m | None \<Rightarrow> re_search r cs)"

text \<open>
  \<open>re.findall(r, s)\<close> for a pattern with exactly one group: the text of group 1 of
  every match, scanning left to right without overlap. Every pattern of the source
  consumes at least one character; the branch for an empty match records it and moves
  on by one character.
\<close>

fun re_findall :: "rx \<Rightarrow> string \<Rightarrow> string list" where
  "re_findall r s =
     (case re_match r s of
        Some (gs, t) \<Rightarrow>
          (if length t < length s then take 1 gs @ re_findall r t
           else take 1 gs @ (case s of [] \<Rightarrow> [] | _ # cs \<Rightarrow> re_findall r cs))
      | None \<Rightarrow> (case s of [] \<Rightarrow> [] | _ # cs \<Rightarrow> re_findall r cs))"

text \<open>\<open>re.sub(r, repl, s)\<close> for a replacement without group references.\<close>

fun re_sub :: "rx \<Rightarrow> string \<Rightarrow> string \<Rightarrow> string" where
  "re_sub r repl s =
     (case re_match r s of
        Some (gs, t) \<Rightarrow>
          (if length t < length s then repl @ re_sub r repl t
           else repl @ (case s of [] \<Rightarrow> [] | c # cs \<Rightarrow> c # re_sub r repl cs))
      | None \<Rightarrow> (case s of [] \<Rightarrow> [] | c # cs \<Rightarrow> c # re_sub r repl cs))"

declare re_findall.simps [simp del]
declare re_sub.simps [simp del]

text \<open>Notation for writing the source's patterns down.\<close>

fun seq :: "rx list \<Rightarrow> rx" where
  "seq [] = Lit False []"
| "seq (r # rs) = Cat r (seq rs)"

abbreviation plus :: "(char \<Rightarrow> bool) \<Rightarrow> rx" where
  "plus p \<equiv> Many p 1 None"

abbreviation star :: "(char \<Rightarrow> bool) \<Rightarrow> rx" where
  "star p \<equiv> Many p 0 None"

abbreviation times :: "nat \<Rightarrow> (char \<Rightarrow> bool) \<Rightarrow> rx" where
  "times n p \<equiv> Many p n (Some n)"

definition one_of :: "string \<Rightarrow> char \<Rightarrow> bool" where
  "one_of cs c = (c \<in> set cs)"

text \<open>\<open>[A-Z\.]\<close>, and the same class under \<open>re.IGNORECASE\<close>.\<close>

definition upper_or_dot :: "char \<Rightarrow> bool" where
  "upper_or_dot c = (isupper_AZ c \<or> c = CHR ''.'')"

definition letter_or_dot :: "char \<Rightarrow> bool" where
  "letter_or_dot c = (isupper_AZ c \<or> islower_az c \<or> c = CHR ''.'')"


section \<open>Dates: \<open>datetime.strptime\<close> and \<open>strftime\<close>\<close>

text \<open>
  \<open>strptime\<close> turns the format into a regular expression, one named group per
  directive, matches it at the start of the data and rejects data that is left over.
  The groups of CPython's \<open>_strptime.TimeRE\<close>:
  \<^verbatim>\<open>%d  (?P<d>3[0-1]|[1-2]\d|0[1-9]|[1-9]| [1-9])\<close>,
  \<^verbatim>\<open>%m  (?P<m>1[0-2]|0[1-9]|[1-9])\<close>,
  \<^verbatim>\<open>%Y  (?P<Y>\d\d\d\d)\<close>,
  \<^verbatim>\<open>%y  (?P<y>\d\d)\<close>.
\<close>

definition directive_rx :: "char \<Rightarrow> rx" where
  "directive_rx x =
     (if x = CHR ''d'' then
        Grp (Alt (Cat (Cls (one_of ''3'')) (Cls (one_of ''01'')))
            (Alt (Cat (Cls (one_of ''12'')) (Cls isdigit))
            (Alt (Cat (Cls (one_of ''0'')) (Cls (one_of ''123456789'')))
            (Alt (Cls (one_of ''123456789''))
                 (Cat (Cls (one_of '' '')) (Cls (one_of ''123456789'')))))))
      else if x = CHR ''m'' then
        Grp (Alt (Cat (Cls (one_of ''1'')) (Cls (one_of ''012'')))
            (Alt (Cat (Cls (one_of ''0'')) (Cls (one_of ''123456789'')))
                 (Cls (one_of ''123456789''))))
      else if x = CHR ''Y'' then
        Grp (Cat (Cls isdigit) (Cat (Cls isdigit) (Cat (Cls isdigit) (Cls isdigit))))
      else if x = CHR ''y'' then
        Grp (Cat (Cls isdigit) (Cls isdigit))
      else Lit False [CHR ''%'', x])"

fun format_rx :: "string \<Rightarrow> rx" where
  "format_rx [] = Lit False []"
| "format_rx [c] = Cat (Lit False [c]) (Lit False [])"
| "format_rx (c # x # rest) =
     (if c = CHR ''%'' then Cat (directive_rx x) (format_rx rest)
      else Cat (Lit False [c]) (format_rx (x # rest)))"

fun format_fields :: "string \<Rightarrow> char list" where
  "format_fields [] = []"
| "format_fields [c] = []"
| "format_fields (c # x # rest) =
     (if c = CHR ''%'' then x # format_fields rest else format_fields (x # rest))"

text \<open>\<open>int(s)\<close> for a group of digits, possibly with a leading blank (\<open>%d\<close>).\<close>

definition py_int :: "string \<Rightarrow> nat" where
  "py_int s = foldl (\<lambda>n c. 10 * n + (code c - 48)) 0 (strip s)"

definition is_leap :: "nat \<Rightarrow> bool" where
  "is_leap y = (y mod 4 = 0 \<and> (y mod 100 \<noteq> 0 \<or> y mod 400 = 0))"

definition days_in_month :: "nat \<Rightarrow> nat \<Rightarrow> nat" where
  "days_in_month y m =
     (if m = 2 then (if is_leap y then 29 else 28)
      else if m \<in> set [4, 6, 9, 11] then 30 else 31)"

text \<open>The constructor \<open>datetime(year, month, day)\<close> raises \<open>ValueError\<close> outside these bounds.\<close>

definition valid_date :: "nat \<Rightarrow> nat \<Rightarrow> nat \<Rightarrow> bool" where
  "valid_date y m d =
     (1 \<le> y \<and> y \<le> 9999 \<and> 1 \<le> m \<and> m \<le> 12 \<and> 1 \<le> d \<and> d \<le> days_in_month y m)"

text \<open>
  \<open>datetime.strptime(data, fmt)\<close>, reduced to the date: \<open>None\<close> stands for
  \<open>ValueError\<close> (no match, unconverted data, or a date that does not exist). A
  two-digit year up to 68 is in 20xx, otherwise in 19xx.
\<close>

definition strptime :: "string \<Rightarrow> string \<Rightarrow> (nat \<times> nat \<times> nat) option" where
  "strptime data fmt =
     (case re_match (format_rx fmt) data of
        None \<Rightarrow> None
      | Some (gs, rest) \<Rightarrow>
          if rest \<noteq> [] then None
          else
            let found = map_of (zip (format_fields fmt) gs);
                year = (case found CHR ''Y'' of
                          Some v \<Rightarrow> py_int v
                        | None \<Rightarrow>
                            (case found CHR ''y'' of
                               Some v \<Rightarrow> (let y = py_int v in if y \<le> 68 then y + 2000 else y + 1900)
                             | None \<Rightarrow> 1900));
                month = (case found CHR ''m'' of Some v \<Rightarrow> py_int v | None \<Rightarrow> 1);
                day = (case found CHR ''d'' of Some v \<Rightarrow> py_int v | None \<Rightarrow> 1)
            in if valid_date year month day then Some (year, month, day) else None)"

definition digit_char :: "nat \<Rightarrow> char" where
  "digit_char n = char_of (48 + n)"

definition pad2 :: "nat \<Rightarrow> string" where
  "pad2 n = [digit_char (n div 10 mod 10), digit_char (n mod 10)]"

definition pad4 :: "nat \<Rightarrow> string" where
  "pad4 n = [digit_char (n div 1000 mod 10), digit_char (n div 100 mod 10),
             digit_char (n div 10 mod 10), digit_char (n mod 10)]"

text \<open>
  \<open>%Y\<close> as \<open>strftime\<close> prints it: CPython hands the directive to the C library, and
  glibc prints the year as a decimal number without leading zeros (\<open>99\<close> for the
  year 99). The Python documentation shows the year zero-padded to four digits; the two
  agree from the year 1000 on. A date has a year between 1 and 9999.
\<close>

definition year_str :: "nat \<Rightarrow> string" where
  "year_str y =
     (if y < 10 then [digit_char y]
      else if y < 100 then [digit_char (y div 10), digit_char (y mod 10)]
      else if y < 1000 then [digit_char (y div 100), digit_char (y div 10 mod 10),
                             digit_char (y mod 10)]
      else pad4 y)"

text \<open>\<open>d.strftime('%Y-%m-%d')\<close>; \<open>%m\<close> and \<open>%d\<close> are two digits, zero-padded.\<close>

definition strftime_iso :: "nat \<times> nat \<times> nat \<Rightarrow> string" where
  "strftime_iso ymd = (case ymd of (y, m, d) \<Rightarrow> year_str y @ ''-'' @ pad2 m @ ''-'' @ pad2 d)"

definition date_formats :: "string list" where
  "date_formats = [''%d/%m/%Y'', ''%d-%m-%Y'', ''%Y-%m-%d'', ''%d/%m/%y'', ''%d-%m-%y'', ''%Y/%m/%d'']"

text \<open>The loop of \<open>_parse_date\<close> over the formats: the first one that parses returns.\<close>

fun try_formats :: "string \<Rightarrow> string list \<Rightarrow> string option" where
  "try_formats s [] = None"
| "try_formats s (fmt # fmts) =
     (case strptime s fmt of
        Some parsed_date \<Rightarrow> Some (strftime_iso parsed_date)
      | None \<Rightarrow> try_formats s fmts)"

text \<open>\<open>_parse_date\<close>; the argument may be \<open>None\<close>.\<close>

definition parse_date :: "string option \<Rightarrow> string option" where
  "parse_date date_string =
     (case date_string of
        None \<Rightarrow> None
      | Some s \<Rightarrow> if s = [] then None else try_formats (strip s) date_formats)"


section \<open>Case records and the parsed document\<close>

record case_record =
  case_number :: string
  petitioner :: string
  respondent :: string
  filing_date :: "string option"
  status :: string
  court :: string
  case_type :: string
  judge :: "string option"
  next_hearing :: "string option"

text \<open>
  The tree that \<open>BeautifulSoup(html, 'html.parser')\<close> builds: text nodes, and elements
  with a tag name, attributes and children. The parser itself belongs to the library:
  \<open>_parse_search_results\<close> takes the tree next to the text it was built from, and
  \<open>_search_by_case_number\<close> takes the parser as the parameter \<open>bs\<close>.
\<close>

datatype node = Text string | Elem string "(string \<times> string) list" "node list"

fun descendants :: "node \<Rightarrow> node list" where
  "descendants (Text s) = []"
| "descendants (Elem t a cs) = concat (map (\<lambda>c. c # descendants c) cs)"

fun is_tag :: "string list \<Rightarrow> node \<Rightarrow> bool" where
  "is_tag names (Text s) = False"
| "is_tag names (Elem t a cs) = (t \<in> set names)"

text \<open>\<open>el.find_all(name)\<close> and \<open>el.find_all([name, ...])\<close>: document order.\<close>

definition find_all :: "string list \<Rightarrow> node \<Rightarrow> node list" where
  "find_all names el = filter (is_tag names) (descendants el)"

fun attr_get :: "node \<Rightarrow> string \<Rightarrow> string option" where
  "attr_get (Text s) k = None"
| "attr_get (Elem t a cs) k = map_of a k"

text \<open>The \<open>class\<close> attribute is multi-valued: its value is split at whitespace.\<close>

definition classes :: "node \<Rightarrow> string list" where
  "classes el = (case attr_get el ''class'' of None \<Rightarrow> [] | Some v \<Rightarrow> split v)"

fun strings :: "node \<Rightarrow> string list" where
  "strings (Text s) = [s]"
| "strings (Elem t a cs) = concat (map strings cs)"

text \<open>\<open>el.get_text(strip=True)\<close>: every string stripped, the empty ones dropped, joined.\<close>

definition get_text_strip :: "node \<Rightarrow> string" where
  "get_text_strip el = concat (filter (\<lambda>s. s \<noteq> []) (map strip (strings el)))"

text \<open>\<open>el.find(class_=name)\<close>\<close>

definition find_class :: "node \<Rightarrow> string \<Rightarrow> node option" where
  "find_class el name = List.find (\<lambda>n. name \<in> set (classes n)) (descendants el)"


section \<open>Extraction\<close>

text \<open>\<open>_extract_case_type\<close>\<close>

definition extract_case_type :: "string \<Rightarrow> string" where
  "extract_case_type cn =
     (if cn = [] then ''Unknown''
      else case split cn of [] \<Rightarrow> ''Unknown'' | part # _ \<Rightarrow> part)"

subsection \<open>Table rows (\<open>_extract_case_from_row\<close>)\<close>

text \<open>\<^verbatim>\<open>[A-Z\.]+\([A-Z]+\)\s+\d+/\d{4}\<close> and \<^verbatim>\<open>\d{1,2}[/-]\d{1,2}[/-]\d{4}\<close>\<close>

definition row_case_rx :: rx where
  "row_case_rx = seq [plus upper_or_dot, Lit False ''('', plus isupper_AZ, Lit False '')'',
                      plus isspace, plus isdigit, Lit False ''/'', times 4 isdigit]"

definition row_date_rx :: rx where
  "row_date_rx = seq [Many isdigit 1 (Some 2), Cls (one_of ''/-''), Many isdigit 1 (Some 2),
                      Cls (one_of ''/-''), times 4 isdigit]"

definition status_words :: "string list" where
  "status_words = [''pending'', ''disposed'', ''dismissed'', ''closed'']"

record row_vars =
  v_case_number :: "string option"
  v_petitioner :: "string option"
  v_respondent :: "string option"
  v_filing_date :: "string option"
  v_status :: "string option"

definition row_init :: row_vars where
  "row_init = \<lparr>v_case_number = None, v_petitioner = None, v_respondent = None,
                v_filing_date = None, v_status = None\<rparr>"

text \<open>
  One pass of the \<open>for i, cell in enumerate(cells)\<close> loop. The loop reads a cell only
  through \<open>get_text(strip=True)\<close>, so it runs over the texts of the cells:
  \<open>cell_text\<close> is the text of the current cell and \<open>rest\<close> holds the texts of the
  cells after it, so \<open>i + 1 < len(cells)\<close> is \<open>rest \<noteq> []\<close> and the text of
  \<open>cells[i + 1]\<close> is its head.
\<close>

text \<open>The four tests of the loop body, in the order of its \<open>if\<close>/\<open>elif\<close> chain.\<close>

definition case_shaped :: "string \<Rightarrow> bool" where
  "case_shaped cell_text = (re_search row_case_rx cell_text \<noteq> None)"

definition party_trigger :: "string \<Rightarrow> bool" where
  "party_trigger cell_text =
     (str_in ''petitioner'' (lower cell_text) \<or> str_in ''vs'' (lower cell_text))"

definition date_shaped :: "string \<Rightarrow> bool" where
  "date_shaped cell_text = (re_search row_date_rx cell_text \<noteq> None)"

definition status_cell :: "string \<Rightarrow> bool" where
  "status_cell cell_text =
     list_ex (\<lambda>status_word. str_in status_word (lower cell_text)) status_words"

definition row_step :: "string \<Rightarrow> string list \<Rightarrow> row_vars \<Rightarrow> row_vars" where
  "row_step cell_text rest v =
     (if \<not> truthy (v_case_number v) \<and> case_shaped cell_text then
        v\<lparr>v_case_number := Some cell_text\<rparr>
      else if party_trigger cell_text then
        (case rest of [] \<Rightarrow> v | nxt # _ \<Rightarrow> v\<lparr>v_petitioner := Some nxt\<rparr>)
      else if date_shaped cell_text then
        (if \<not> truthy (v_filing_date v) then v\<lparr>v_filing_date := Some cell_text\<rparr> else v)
      else if status_cell cell_text then
        v\<lparr>v_status := Some cell_text\<rparr>
      else v)"

fun row_loop :: "string list \<Rightarrow> row_vars \<Rightarrow> row_vars" where
  "row_loop [] v = v"
| "row_loop (cell_text # rest) v = row_loop rest (row_step cell_text rest v)"

definition extract_case_from_row :: "node list \<Rightarrow> case_record option" where
  "extract_case_from_row cells =
     (let v = row_loop (map get_text_strip cells) row_init in
      case v_case_number v of
        None \<Rightarrow> None
      | Some cn \<Rightarrow>
          if cn = [] then None
          else Some \<lparr>case_number = cn,
                     petitioner = or_else (v_petitioner v) ''N/A'',
                     respondent = or_else (v_respondent v) ''N/A'',
                     filing_date = (if truthy (v_filing_date v) then parse_date (v_filing_date v) else None),
                     status = or_else (v_status v) ''Unknown'',
                     court = ''Delhi High Court'',
                     case_type = extract_case_type cn,
                     judge = None,
                     next_hearing = None\<rparr>)"

text \<open>
  The body of \<open>_extract_case_from_row\<close> sits in a \<open>try\<close> block, like the bodies of
  the other extraction functions. Nothing in these bodies raises on a parsed document
  (the one index \<open>cells[i + 1]\<close> is guarded, and \<open>ValueError\<close> from \<open>strptime\<close> is
  caught inside \<open>_parse_date\<close>), so the handlers have no branch in the model.
\<close>

text \<open>The table loop at the head of \<open>_parse_search_results\<close>.\<close>

definition row_cases :: "node \<Rightarrow> case_record list" where
  "row_cases row =
     (let cells = find_all [''td'', ''th''] row in
      if length cells \<ge> 3 then
        (case extract_case_from_row cells of None \<Rightarrow> [] | Some case_data \<Rightarrow> [case_data])
      else [])"

definition table_cases :: "node \<Rightarrow> case_record list" where
  "table_cases soup =
     concat (map (\<lambda>table. concat (map row_cases (find_all [''tr''] table)))
                 (find_all [''table''] soup))"

subsection \<open>Elements by class (\<open>_extract_from_divs\<close>, \<open>_extract_case_data\<close>, \<open>_extract_text\<close>)\<close>

fun extract_text :: "node \<Rightarrow> string list \<Rightarrow> string option" where
  "extract_text element [] = None"
| "extract_text element (class_name # class_names) =
     (case find_class element class_name of
        Some found \<Rightarrow> Some (get_text_strip found)
      | None \<Rightarrow> extract_text element class_names)"

definition extract_case_data :: "node \<Rightarrow> case_record option" where
  "extract_case_data element =
     (let cn = extract_text element [''case-number'', ''case_no'', ''case_number''];
          pet = extract_text element [''petitioner'', ''petitioner_name''];
          resp = extract_text element [''respondent'', ''respondent_name''];
          fd = extract_text element [''filing_date'', ''date_filed''];
          st = extract_text element [''status'', ''case_status'']
      in case cn of
           None \<Rightarrow> None
         | Some c \<Rightarrow>
             if c = [] then None
             else Some \<lparr>case_number = c,
                        petitioner = or_else pet ''N/A'',
                        respondent = or_else resp ''N/A'',
                        filing_date = (if truthy fd then parse_date fd else None),
                        status = or_else st ''Unknown'',
                        court = ''Delhi High Court'',
                        case_type = extract_case_type c,
                        judge = extract_text element [''judge'', ''judge_name''],
                        next_hearing = extract_text element [''next_hearing'', ''hearing_date'']\<rparr>)"

text \<open>\<open>re.compile(r'case|result|row|item')\<close>, searched in the classes of a \<open>div\<close>.\<close>

definition div_class_rx :: rx where
  "div_class_rx = Alt (Lit False ''case'') (Alt (Lit False ''result'')
                    (Alt (Lit False ''row'') (Lit False ''item'')))"

definition extract_from_divs :: "node \<Rightarrow> case_record list" where
  "extract_from_divs soup =
     (let case_divs = filter (\<lambda>n. is_tag [''div''] n \<and>
                                   list_ex (\<lambda>c. re_search div_class_rx c \<noteq> None) (classes n))
                             (descendants soup)
      in concat (map (\<lambda>d. case extract_case_data d of None \<Rightarrow> [] | Some case_data \<Rightarrow> [case_data])
                     case_divs))"

subsection \<open>Free text (\<open>_extract_from_text\<close>)\<close>

text \<open>\<^verbatim>\<open><[^>]+>\<close> and \<^verbatim>\<open>\s+\<close>\<close>

definition tag_rx :: rx where
  "tag_rx = seq [Lit False ''<'', plus (\<lambda>c. c \<noteq> CHR ''>''), Lit False ''>'']"

definition plain_text :: "string \<Rightarrow> string" where
  "plain_text html_content = strip (re_sub (plus isspace) '' '' (re_sub tag_rx '' '' html_content))"

text \<open>
  \<^verbatim>\<open>([A-Z\.]+\s+\d+/\d{4})\<close>, \<^verbatim>\<open>([A-Z\.]+\s+\d+\s+of\s+\d{4})\<close> and
  \<^verbatim>\<open>([A-Z\.]+\s+\d+-\d{4})\<close>, used with \<open>re.IGNORECASE\<close>.
\<close>

definition case_patterns :: "rx list" where
  "case_patterns =
     [Grp (seq [plus letter_or_dot, plus isspace, plus isdigit, Lit True ''/'', times 4 isdigit]),
      Grp (seq [plus letter_or_dot, plus isspace, plus isdigit, plus isspace, Lit True ''of'',
                plus isspace, times 4 isdigit]),
      Grp (seq [plus letter_or_dot, plus isspace, plus isdigit, Lit True ''-'', times 4 isdigit])]"

definition text_record :: "string \<Rightarrow> case_record" where
  "text_record match =
     \<lparr>case_number = strip match, petitioner = ''N/A'', respondent = ''N/A'',
      filing_date = None, status = ''Unknown'', court = ''Delhi High Court'',
      case_type = extract_case_type match, judge = None, next_hearing = None\<rparr>"

definition extract_from_text :: "string \<Rightarrow> case_record list" where
  "extract_from_text html_content =
     (let text = plain_text html_content in
      concat (map (\<lambda>pattern. map text_record (re_findall pattern text)) case_patterns))"

subsection \<open>The pipeline (\<open>_parse_search_results\<close>)\<close>

datatype strategy = TableRows | FreeText | ClassElements

definition captcha_detected :: "string \<Rightarrow> bool" where
  "captcha_detected html_content =
     (str_in ''captcha'' (lower html_content) \<or> str_in ''verify'' (lower html_content))"

text \<open>
  \<open>_parse_search_results\<close>, returning next to the cases the strategies that were
  run, in order. \<open>soup\<close> is the tree that \<open>BeautifulSoup(html_content, 'html.parser')\<close>
  has built from \<open>html_content\<close>.
\<close>

definition parse_search_results_run :: "node \<Rightarrow> string \<Rightarrow> strategy list \<times> case_record list" where
  "parse_search_results_run soup html_content =
     (if captcha_detected html_content then ([], [])
      else
        let r1 = ([TableRows], table_cases soup);
            r2 = (if snd r1 = [] then (fst r1 @ [FreeText], extract_from_text html_content) else r1);
            r3 = (if snd r2 = [] then (fst r2 @ [ClassElements], extract_from_divs soup) else r2)
        in r3)"

definition parse_search_results :: "node \<Rightarrow> string \<Rightarrow> case_record list" where
  "parse_search_results soup html_content = snd (parse_search_results_run soup html_content)"


section \<open>Case numbers (\<open>_parse_case_number\<close>)\<close>

record parsed_case_number =
  pc_case_type :: string
  pc_number :: string
  pc_year :: string

definition case_types :: "string list" where
  "case_types =
     [''W.P.(C)'', ''W.P.(CRL)'', ''W.P.(MD)'', ''W.P.(CIVIL)'', ''W.P.(CRIMINAL)'',
      ''C.M.(M)'', ''C.M.(W)'', ''C.M.(MAIN)'', ''C.M.(APPL)'', ''C.M.(NO.)'',
      ''LPA'', ''FAO'', ''RFA'', ''CRL.A.'', ''CRL.M.C.'', ''CRL.REV.P.'',
      ''C.R.P.'', ''C.M.'', ''O.A.'', ''T.A.'', ''A.A.'', ''E.P.'']"

text \<open>\<^verbatim>\<open>rf"^{re.escape(case_type)}\s*(\d+)/(\d{{4}})$"\<close> with \<open>re.IGNORECASE\<close>\<close>

definition known_pattern :: "string \<Rightarrow> rx" where
  "known_pattern ct = seq [Lit True ct, star isspace, Grp (plus isdigit), Lit True ''/'',
                           Grp (times 4 isdigit), Eos]"

text \<open>
  \<^verbatim>\<open>^([A-Z\.]+)\s*(\d+)/(\d{4})$\<close>, \<^verbatim>\<open>^([A-Z\.]+)\s*(\d+)\s*of\s*(\d{4})$\<close> and
  \<^verbatim>\<open>^([A-Z\.]+)\s*(\d+)-(\d{4})$\<close>, used with \<open>re.IGNORECASE\<close>.
\<close>

definition generic_patterns :: "rx list" where
  "generic_patterns =
     [seq [Grp (plus letter_or_dot), star isspace, Grp (plus isdigit), Lit True ''/'',
           Grp (times 4 isdigit), Eos],
      seq [Grp (plus letter_or_dot), star isspace, Grp (plus isdigit), star isspace,
           Lit True ''of'', star isspace, Grp (times 4 isdigit), Eos],
      seq [Grp (plus letter_or_dot), star isspace, Grp (plus isdigit), Lit True ''-'',
           Grp (times 4 isdigit), Eos]]"

text \<open>The two loops of \<open>_parse_case_number\<close>; the first match returns.\<close>

fun try_case_types :: "string \<Rightarrow> string list \<Rightarrow> parsed_case_number option" where
  "try_case_types cn [] = None"
| "try_case_types cn (ct # cts) =
     (case re_match (known_pattern ct) cn of
        Some (gs, rest) \<Rightarrow>
          Some \<lparr>pc_case_type = ct, pc_number = gs ! 0, pc_year = gs ! 1\<rparr>
      | None \<Rightarrow> try_case_types cn cts)"

fun try_patterns :: "string \<Rightarrow> rx list \<Rightarrow> parsed_case_number option" where
  "try_patterns cn [] = None"
| "try_patterns cn (pattern # patterns) =
     (case re_match pattern cn of
        Some (gs, rest) \<Rightarrow>
          Some \<lparr>pc_case_type = strip (gs ! 0), pc_number = gs ! 1, pc_year = gs ! 2\<rparr>
      | None \<Rightarrow> try_patterns cn patterns)"

definition parse_case_number :: "string \<Rightarrow> parsed_case_number option" where
  "parse_case_number cn =
     (case try_case_types cn case_types of
        Some info \<Rightarrow> Some info
      | None \<Rightarrow> try_patterns cn generic_patterns)"


section \<open>Searching by case number (\<open>_search_by_case_number\<close>)\<close>

text \<open>
  The session is a parameter: what the site answers to a GET and to a POST, \<open>None\<close>
  when \<open>requests\<close> raises (connection error, timeout). The function returns the
  requests it has issued, in order, next to its result.
\<close>

record response =
  status_code :: nat
  resp_text :: string

datatype request = Get string | Post string "(string \<times> string) list"

record session =
  get :: "string \<Rightarrow> response option"
  post :: "string \<Rightarrow> (string \<times> string) list \<Rightarrow> response option"

definition search_url :: string where
  "search_url = ''https://delhihighcourt.nic.in/case.asp''"

text \<open>\<open>response.raise_for_status()\<close> raises for the 4xx and 5xx codes.\<close>

definition raises_for_status :: "response \<Rightarrow> bool" where
  "raises_for_status r = (400 \<le> status_code r \<and> status_code r < 600)"

definition hidden_fields :: "node \<Rightarrow> (string \<times> string) list \<Rightarrow> (string \<times> string) list" where
  "hidden_fields soup search_data =
     foldl (\<lambda>d hidden.
              case attr_get hidden ''name'' of
                None \<Rightarrow> d
              | Some name \<Rightarrow>
                  if name = [] then d
                  else AList.update name (case attr_get hidden ''value'' of None \<Rightarrow> [] | Some v \<Rightarrow> v) d)
           search_data
           (filter (\<lambda>n. is_tag [''input''] n \<and> attr_get n ''type'' = Some ''hidden'')
                   (descendants soup))"

definition search_by_case_number ::
    "session \<Rightarrow> (string \<Rightarrow> node) \<Rightarrow> string \<Rightarrow> request list \<times> case_record list" where
  "search_by_case_number s bs cn =
     (case parse_case_number cn of
        None \<Rightarrow> ([], [])
      | Some case_info \<Rightarrow>
          (case get s search_url of
             None \<Rightarrow> ([Get search_url], [])
           | Some r1 \<Rightarrow>
               if raises_for_status r1 then ([Get search_url], [])
               else
                 let soup = bs (resp_text r1);
                     search_data = hidden_fields soup
                       [(''case_type'', pc_case_type case_info),
                        (''case_number'', pc_number case_info),
                        (''filing_year'', pc_year case_info),
                        (''submit'', ''Search'')];
                     log = [Get search_url, Post search_url search_data]
                 in (case post s search_url search_data of
                       None \<Rightarrow> (log, [])
                     | Some r2 \<Rightarrow>
                         if raises_for_status r2 then (log, [])
                         else (log, parse_search_results (bs (resp_text r2)) (resp_text r2)))))"


section \<open>The mock source (\<open>_get_mock_cases\<close>)\<close>

definition mock_cases :: "case_record list" where
  "mock_cases =
     [\<lparr>case_number = ''W.P.(C) 1040/2023'', petitioner = ''Reliance Industries Limited'',
       respondent = ''Union of India & Ors.'', filing_date = Some ''2023-03-15'',
       status = ''Pending'', court = ''Delhi High Court'', case_type = ''W.P.(C)'',
       judge = Some (''Hon'' @ [CHR 0x27] @ ''ble Mr. Justice Rajiv Shakdher''),
       next_hearing = Some ''2024-01-15''\<rparr>,
      \<lparr>case_number = ''LPA 163/2023'', petitioner = ''State of Delhi'',
       respondent = ''Delhi Development Authority'', filing_date = Some ''2023-02-20'',
       status = ''Disposed'', court = ''Delhi High Court'', case_type = ''LPA'',
       judge = Some (''Hon'' @ [CHR 0x27] @ ''ble Mr. Justice Vipin Sanghi''),
       next_hearing = None\<rparr>,
      \<lparr>case_number = ''FAO 456/2022'', petitioner = ''John Doe'',
       respondent = ''ABC Corporation'', filing_date = Some ''2022-11-10'',
       status = ''Pending'', court = ''Delhi High Court'', case_type = ''FAO'',
       judge = Some (''Hon'' @ [CHR 0x27] @ ''ble Ms. Justice Rekha Palli''),
       next_hearing = Some ''2024-01-20''\<rparr>,
      \<lparr>case_number = ''CRL.A. 789-2021'', petitioner = ''Central Bureau of Investigation'',
       respondent = ''XYZ Limited'', filing_date = Some ''2021-08-05'',
       status = ''Pending'', court = ''Delhi High Court'', case_type = ''CRL.A.'',
       judge = Some (''Hon'' @ [CHR 0x27] @ ''ble Mr. Justice Siddharth Mridul''),
       next_hearing = Some ''2024-01-25''\<rparr>,
      \<lparr>case_number = ''C.M.(M) 123/2023'', petitioner = ''Delhi Metro Rail Corporation'',
       respondent = ''Municipal Corporation of Delhi'', filing_date = Some ''2023-04-12'',
       status = ''Pending'', court = ''Delhi High Court'', case_type = ''C.M.(M)'',
       judge = Some (''Hon'' @ [CHR 0x27] @ ''ble Mr. Justice Yashwant Varma''),
       next_hearing = Some ''2024-01-30''\<rparr>]"

text \<open>
  The body of the filtering loop for one record: \<open>filtered\<close> is the list built so
  far, and each \<open>continue\<close> ends the pass.
\<close>

definition mock_step :: "string \<Rightarrow> string \<Rightarrow> case_record list \<Rightarrow> case_record \<Rightarrow> case_record list" where
  "mock_step cn party_name filtered c =
     (if cn \<noteq> [] \<and> str_in (lower cn) (lower (case_number c)) then filtered @ [c]
      else if party_name \<noteq> [] \<and>
              (let party_lower = lower party_name;
                   petitioner_lower = lower (petitioner c);
                   respondent_lower = lower (respondent c)
               in str_in party_lower petitioner_lower \<or> str_in party_lower respondent_lower \<or>
                  str_in petitioner_lower party_lower \<or> str_in respondent_lower party_lower)
           then filtered @ [c]
      else if cn = [] \<and> party_name = [] then filtered @ [c]
      else filtered)"

definition get_mock_cases :: "string \<Rightarrow> string \<Rightarrow> case_record list" where
  "get_mock_cases cn party_name = take 5 (foldl (mock_step cn party_name) [] mock_cases)"

text \<open>
  The filtering rule in the words of its description: a record is included when the
  case-number query is non-empty and a case-insensitive substring of the record's case
  number, or the party-name query is non-empty and is a substring of, or contains, the
  petitioner or the respondent, or both queries are empty.
\<close>

definition mock_included :: "string \<Rightarrow> string \<Rightarrow> case_record \<Rightarrow> bool" where
  "mock_included cn party_name c =
     ((cn \<noteq> [] \<and> sublist (lower cn) (lower (case_number c))) \<or>
      (party_name \<noteq> [] \<and>
         (sublist (lower party_name) (lower (petitioner c)) \<or>
          sublist (lower party_name) (lower (respondent c)) \<or>
          sublist (lower (petitioner c)) (lower party_name) \<or>
          sublist (lower (respondent c)) (lower party_name))) \<or>
      (cn = [] \<and> party_name = []))"


section \<open>Example inputs\<close>

text \<open>
  A page without tables: one \<open>div\<close> of class \<open>case\<close> holding a case number and a
  petitioner, as text and as the tree built from it.
\<close>

definition example_html :: string where
  "example_html =
     ''<div class='' @ [CHR 0x22] @ ''case'' @ [CHR 0x22] @ ''>'' @
     ''<span class='' @ [CHR 0x22] @ ''case-number'' @ [CHR 0x22] @ ''>ABC 12/2023</span>'' @
     ''<span class='' @ [CHR 0x22] @ ''petitioner'' @ [CHR 0x22] @ ''>John</span></div>''"

definition example_soup :: node where
  "example_soup =
     Elem ''[document]'' []
       [Elem ''div'' [(''class'', ''case'')]
          [Elem ''span'' [(''class'', ''case-number'')] [Text ''ABC 12/2023''],
           Elem ''span'' [(''class'', ''petitioner'')] [Text ''John'']]]"

definition captcha_html :: string where
  "captcha_html = ''Please complete the CAPTCHA''"

definition captcha_soup :: node where
  "captcha_soup = Elem ''[document]'' [] [Text ''Please complete the CAPTCHA'']"

text \<open>A session in which every request fails, and a parser that is never reached.\<close>

definition dead_session :: session where
  "dead_session = \<lparr>get = (\<lambda>url. None), post = (\<lambda>url data. None)\<rparr>"

definition empty_parser :: "string \<Rightarrow> node" where
  "empty_parser html = Elem ''[document]'' [] []"


text \<open>The row of the example, and a row with two dates, two status words and two case numbers.\<close>

definition example_cells :: "node list" where
  "example_cells = map (\<lambda>t. Elem ''td'' [] [Text t])
     [''W.P.(C) 1040/2023'', ''vs'', ''Reliance Industries Limited'', ''15/03/2023'', ''Pending'']"

definition two_status_cells :: "node list" where
  "two_status_cells = map (\<lambda>t. Elem ''td'' [] [Text t])
     [''15/03/2023'', ''Pending'', ''W.P.(C) 1040/2023'', ''16/03/2023'', ''Disposed'',
      ''W.P.(C) 7/2024'']"


section \<open>Which cell of a row reaches which test\<close>

text \<open>
  A cell that does not become the case number goes down the \<open>elif\<close> chain: it reaches
  the date test when it is no party trigger, and the status test when it is moreover
  not date-shaped.
\<close>

definition reaches_date :: "string \<Rightarrow> bool" where
  "reaches_date t = (\<not> party_trigger t \<and> date_shaped t)"

definition reaches_status :: "string \<Rightarrow> bool" where
  "reaches_status t = (\<not> party_trigger t \<and> \<not> date_shaped t \<and> status_cell t)"

text \<open>The value of \<open>status\<close> and of \<open>filing_date\<close> after a run of such cells.\<close>

definition status_after :: "string option \<Rightarrow> string list \<Rightarrow> string option" where
  "status_after a xs = (if xs = [] then a else Some (last xs))"

definition date_after :: "string option \<Rightarrow> string list \<Rightarrow> string option" where
  "date_after a xs = (if truthy a then a else case xs of [] \<Rightarrow> a | x # _ \<Rightarrow> Some x)"


text \<open>
  A page with one table holding the row of the example, a row without a case number,
  and a \<open>div\<close> without content.
\<close>

definition table_soup :: node where
  "table_soup = Elem ''[document]'' [] [Elem ''table'' [] [Elem ''tr'' [] example_cells]]"

definition table_html :: string where
  "table_html = ''<table><tr><td>W.P.(C) 1040/2023</td><td>vs</td>'' @
                ''<td>Reliance Industries Limited</td><td>15/03/2023</td><td>Pending</td></tr></table>''"

definition plain_cells :: "node list" where
  "plain_cells = map (\<lambda>t. Elem ''td'' [] [Text t]) [''1'', ''John Doe'', ''Pending'']"

definition empty_div :: node where
  "empty_div = Elem ''div'' [(''class'', ''case'')] []"


section \<open>The shape of a normalised date\<close>

text \<open>\<open>YYYY-MM-DD\<close>: ten characters, digits except for the two dashes.\<close>

definition iso_shaped :: "string \<Rightarrow> bool" where
  "iso_shaped s =
     (length s = 10 \<and> list_all isdigit (take 4 s) \<and> s ! 4 = CHR ''-'' \<and>
      list_all isdigit (take 2 (drop 5 s)) \<and> s ! 7 = CHR ''-'' \<and> list_all isdigit (drop 8 s))"


section \<open>Substrings and lower case\<close>

lemma str_in_iff_sublist: "str_in sub s \<longleftrightarrow> sublist sub s"
  by (induction s) (auto simp: sublist_Cons_right)

lemma lower_sublist: "sublist u s \<Longrightarrow> sublist (lower u) (lower s)"
  unfolding lower_def by (rule map_mono_sublist)


section \<open>The CAPTCHA check\<close>

text \<open>
  C3. A document whose raw text contains "captcha" or "verify" in any letter case (a
  substring \<open>u\<close> that lower-cases to one of them) makes \<open>_parse_search_results\<close>
  return the empty list, and no extraction strategy is run.
\<close>

theorem captcha_aborts:
  assumes "sublist u html_content"
      and "lower u = ''captcha'' \<or> lower u = ''verify''"
  shows "parse_search_results_run soup html_content = ([], []) \<and>
         parse_search_results soup html_content = []"
  using assms(2) lower_sublist[OF assms(1)]
  by (auto simp: parse_search_results_def parse_search_results_run_def captcha_detected_def
                 str_in_iff_sublist)

theorem captcha_aborts_witness:
  "sublist ''CAPTCHA'' captcha_html \<and> lower ''CAPTCHA'' = ''captcha'' \<and>
   parse_search_results_run captcha_soup captcha_html = ([], []) \<and>
   parse_search_results captcha_soup captcha_html = []"
proof -
  have a: "sublist ''CAPTCHA'' captcha_html" by code_simp
  have b: "lower ''CAPTCHA'' = ''captcha''" by code_simp
  show ?thesis using a b captcha_aborts[OF a, of captcha_soup] by blast
qed


section \<open>The order of the strategies\<close>






section \<open>Unparseable case numbers\<close>

lemma try_case_types_None:
  "\<forall>ct \<in> set cts. re_match (known_pattern ct) cn = None \<Longrightarrow> try_case_types cn cts = None"
  by (induction cts) auto

lemma try_patterns_None:
  "\<forall>p \<in> set ps. re_match p cn = None \<Longrightarrow> try_patterns cn ps = None"
  by (induction ps) auto

text \<open>
  C7. A case-number string that none of the known case-type patterns and none of the
  three generic patterns matches is not found, and \<open>_search_by_case_number\<close> returns
  the empty list having issued no request.
\<close>

theorem unparseable_no_request:
  assumes "\<forall>ct \<in> set case_types. re_match (known_pattern ct) cn = None"
      and "\<forall>p \<in> set generic_patterns. re_match p cn = None"
  shows "parse_case_number cn = None \<and> search_by_case_number s bs cn = ([], [])"
  using assms
  by (simp add: parse_case_number_def search_by_case_number_def try_case_types_None
                try_patterns_None)

theorem unparseable_no_request_witness:
  "list_all (\<lambda>ct. re_match (known_pattern ct) ''banana'' = None) case_types \<and>
   list_all (\<lambda>p. re_match p ''banana'' = None) generic_patterns \<and>
   parse_case_number ''banana'' = None \<and>
   search_by_case_number dead_session empty_parser ''banana'' = ([], [])"
proof -
  have a: "\<forall>ct \<in> set case_types. re_match (known_pattern ct) ''banana'' = None" by code_simp
  have b: "\<forall>p \<in> set generic_patterns. re_match p ''banana'' = None" by code_simp
  show ?thesis
    using a b unparseable_no_request[OF a b, of dead_session empty_parser]
    by (simp add: list_all_iff)
qed


section \<open>The mock source\<close>

lemma mock_step_filter:
  "mock_step cn pn acc c = acc @ filter (mock_included cn pn) [c]"
  by (auto simp: mock_step_def mock_included_def str_in_iff_sublist Let_def)

lemma mock_fold_filter:
  "foldl (mock_step cn pn) acc cs = acc @ filter (mock_included cn pn) cs"
  by (induction cs arbitrary: acc) (simp_all add: mock_step_filter)

text \<open>
  C9. \<open>_get_mock_cases\<close> returns, in order, the records that the filtering rule
  includes, capped at five; with both queries empty these are all records, and the
  query \<open>case_number = "LPA"\<close> returns exactly the one record whose case number
  contains "LPA".
\<close>

theorem mock_filter_rule:
  "get_mock_cases cn pn = take 5 (filter (mock_included cn pn) mock_cases) \<and>
   length (get_mock_cases cn pn) \<le> 5 \<and>
   get_mock_cases [] [] = mock_cases \<and>
   get_mock_cases ''LPA'' [] = filter (\<lambda>c. sublist ''lpa'' (lower (case_number c))) mock_cases \<and>
   map case_number (get_mock_cases ''LPA'' []) = [''LPA 163/2023'']"
proof -
  have a: "get_mock_cases cn pn = take 5 (filter (mock_included cn pn) mock_cases)"
    by (simp add: get_mock_cases_def mock_fold_filter)
  have b: "length (get_mock_cases cn pn) \<le> 5"
    by (simp add: get_mock_cases_def)
  have c: "get_mock_cases [] [] = mock_cases"
    by code_simp
  have d: "get_mock_cases ''LPA'' [] =
           filter (\<lambda>c. sublist ''lpa'' (lower (case_number c))) mock_cases"
    by code_simp
  have e: "map case_number (get_mock_cases ''LPA'' []) = [''LPA 163/2023'']"
    by code_simp
  show ?thesis using a b c d e by blast
qed

theorem mock_filter_rule_witness:
  "map case_number (take 5 (filter (mock_included ''LPA'' []) mock_cases)) = [''LPA 163/2023'']"
proof -
  from mock_filter_rule[of "''LPA''" "[]"]
  have a: "get_mock_cases ''LPA'' [] = take 5 (filter (mock_included ''LPA'' []) mock_cases)"
    and e: "map case_number (get_mock_cases ''LPA'' []) = [''LPA 163/2023'']"
    by blast+
  show ?thesis using e unfolding a .
qed


section \<open>Table rows\<close>

lemma row_loop_respondent: "v_respondent (row_loop ts v) = v_respondent v"
  by (induction ts arbitrary: v) (auto simp: row_step_def split: list.splits)

lemma case_shaped_nonempty: "case_shaped t \<Longrightarrow> t \<noteq> []"
proof
  assume "case_shaped t" "t = []"
  moreover have "\<not> case_shaped []" by code_simp
  ultimately show False by simp
qed

lemma date_shaped_nonempty: "date_shaped t \<Longrightarrow> t \<noteq> []"
proof
  assume "date_shaped t" "t = []"
  moreover have "\<not> date_shaped []" by code_simp
  ultimately show False by simp
qed

lemma status_cell_nonempty: "status_cell t \<Longrightarrow> t \<noteq> []"
proof
  assume "status_cell t" "t = []"
  moreover have "\<not> status_cell []" by code_simp
  ultimately show False by simp
qed


lemma row_loop_found:
  "truthy (v_case_number v) \<Longrightarrow>
   v_case_number (row_loop ts v) = v_case_number v \<and>
   v_status (row_loop ts v) = status_after (v_status v) (filter reaches_status ts) \<and>
   v_filing_date (row_loop ts v) = date_after (v_filing_date v) (filter reaches_date ts)"
proof (induction ts arbitrary: v)
  case Nil
  then show ?case by (simp add: status_after_def date_after_def)
next
  case (Cons t ts)
  have s: "truthy (v_case_number (row_step t ts v))"
    using Cons.prems by (auto simp: row_step_def split: list.splits)
  show ?case
    using Cons.prems Cons.IH[OF s] date_shaped_nonempty[of t]
    by (auto simp: row_step_def status_after_def date_after_def reaches_status_def reaches_date_def truthy_def
        split: list.splits)
qed

lemma row_loop_first:
  "\<not> truthy (v_case_number v) \<Longrightarrow> \<forall>t \<in> set pre. \<not> case_shaped t \<Longrightarrow> case_shaped c \<Longrightarrow>
   v_case_number (row_loop (pre @ c # after) v) = Some c \<and>
   v_status (row_loop (pre @ c # after) v) = status_after (v_status v) (filter reaches_status (pre @ after)) \<and>
   v_filing_date (row_loop (pre @ c # after) v) = date_after (v_filing_date v) (filter reaches_date (pre @ after))"
proof (induction pre arbitrary: v)
  case Nil
  have "truthy (v_case_number (v\<lparr>v_case_number := Some c\<rparr>))"
    using case_shaped_nonempty[OF Nil.prems(3)] by (simp add: truthy_def)
  from row_loop_found[OF this, of after] Nil.prems show ?case
    by (simp add: row_step_def)
next
  case (Cons t pre)
  have s: "\<not> truthy (v_case_number (row_step t (pre @ c # after) v))"
    using Cons.prems by (auto simp: row_step_def split: list.splits)
  have r: "\<forall>t \<in> set pre. \<not> case_shaped t" using Cons.prems by simp
  show ?case
    using Cons.prems Cons.IH[OF s r Cons.prems(3)] date_shaped_nonempty[of t]
    by (auto simp: row_step_def status_after_def date_after_def reaches_status_def reaches_date_def truthy_def
        split: list.splits)
qed


lemma extract_case_from_row_texts:
  "map get_text_strip cells = map get_text_strip cells' \<Longrightarrow>
   extract_case_from_row cells = extract_case_from_row cells'"
  by (simp add: extract_case_from_row_def)

lemma extract_case_from_row_respondent:
  "extract_case_from_row cells = Some r \<Longrightarrow> respondent r = ''N/A''"
  by (auto simp: extract_case_from_row_def Let_def row_loop_respondent row_init_def or_else_def
           split: option.splits if_splits)

text \<open>
  C4. A row whose cells have the texts of the example yields the record of the example,
  with \<open>respondent\<close> at its default; and whatever the row, a record that the row
  strategy returns has \<open>respondent\<close> at its default.
\<close>

theorem row_example:
  "(map get_text_strip cells =
      [''W.P.(C) 1040/2023'', ''vs'', ''Reliance Industries Limited'', ''15/03/2023'', ''Pending'']
    \<longrightarrow> extract_case_from_row cells =
          Some \<lparr>case_number = ''W.P.(C) 1040/2023'', petitioner = ''Reliance Industries Limited'',
                respondent = ''N/A'', filing_date = Some ''2023-03-15'', status = ''Pending'',
                court = ''Delhi High Court'', case_type = ''W.P.(C)'', judge = None,
                next_hearing = None\<rparr>) \<and>
   (extract_case_from_row row = Some r \<longrightarrow> respondent r = ''N/A'')"
proof -
  have t: "map get_text_strip example_cells =
      [''W.P.(C) 1040/2023'', ''vs'', ''Reliance Industries Limited'', ''15/03/2023'', ''Pending'']"
    by code_simp
  have v: "extract_case_from_row example_cells =
          Some \<lparr>case_number = ''W.P.(C) 1040/2023'', petitioner = ''Reliance Industries Limited'',
                respondent = ''N/A'', filing_date = Some ''2023-03-15'', status = ''Pending'',
                court = ''Delhi High Court'', case_type = ''W.P.(C)'', judge = None,
                next_hearing = None\<rparr>"
    by code_simp
  show ?thesis
    using extract_case_from_row_texts[of cells example_cells] t v extract_case_from_row_respondent[of row r]
    by simp
qed

theorem row_example_witness:
  "map get_text_strip example_cells =
      [''W.P.(C) 1040/2023'', ''vs'', ''Reliance Industries Limited'', ''15/03/2023'', ''Pending''] \<and>
   map_option case_number (extract_case_from_row example_cells) = Some ''W.P.(C) 1040/2023'' \<and>
   map_option petitioner (extract_case_from_row example_cells) = Some ''Reliance Industries Limited'' \<and>
   map_option filing_date (extract_case_from_row example_cells) = Some (Some ''2023-03-15'') \<and>
   map_option status (extract_case_from_row example_cells) = Some ''Pending'' \<and>
   map_option respondent (extract_case_from_row example_cells) = Some ''N/A''"
proof -
  have t: "map get_text_strip example_cells =
      [''W.P.(C) 1040/2023'', ''vs'', ''Reliance Industries Limited'', ''15/03/2023'', ''Pending'']"
    by code_simp
  show ?thesis using t row_example[of example_cells] by simp
qed

text \<open>
  C10. In a row whose first case-shaped cell is \<open>c\<close>, the case number is \<open>c\<close>;
  among the other cells, the status is the text of the last one that reaches the status
  test and contains a status word, and the filing date comes from the first one that
  reaches the date test and is date-shaped.
\<close>

theorem status_last_wins:
  assumes "map get_text_strip cells = before @ c # after"
      and "\<forall>t \<in> set before. \<not> case_shaped t"
      and "case_shaped c"
  shows "\<exists>r. extract_case_from_row cells = Some r \<and> case_number r = c \<and>
             status r = (if filter reaches_status (before @ after) = [] then ''Unknown''
                         else last (filter reaches_status (before @ after))) \<and>
             filing_date r = (if filter reaches_date (before @ after) = [] then None
                              else parse_date (Some (hd (filter reaches_date (before @ after)))))"
proof -
  have i: "\<not> truthy (v_case_number row_init)" by (simp add: row_init_def truthy_def)
  note L = row_loop_first[OF i assms(2) assms(3), of after]
  have c: "c \<noteq> []" by (rule case_shaped_nonempty[OF assms(3)])
  have st: "xs \<noteq> [] \<Longrightarrow> xs = filter reaches_status ys \<Longrightarrow> last xs \<noteq> []" for xs ys
  proof -
    assume a: "xs \<noteq> []" "xs = filter reaches_status ys"
    then have "last xs \<in> set (filter reaches_status ys)" using last_in_set by metis
    then show ?thesis using status_cell_nonempty by (auto simp: reaches_status_def)
  qed
  have dt: "xs \<noteq> [] \<Longrightarrow> xs = filter reaches_date ys \<Longrightarrow> hd xs \<noteq> []" for xs ys
  proof -
    assume a: "xs \<noteq> []" "xs = filter reaches_date ys"
    then have "hd xs \<in> set (filter reaches_date ys)" using hd_in_set by metis
    then show ?thesis using date_shaped_nonempty by (auto simp: reaches_date_def)
  qed
  show ?thesis
    using L c st[OF _ refl, of "before @ after"] dt[OF _ refl, of "before @ after"]
    by (auto simp: extract_case_from_row_def assms(1) Let_def status_after_def date_after_def
                   row_init_def or_else_def truthy_def
             split: list.splits)
qed

theorem status_last_wins_witness:
  "map get_text_strip two_status_cells = [''15/03/2023'', ''Pending''] @ ''W.P.(C) 1040/2023'' # [''16/03/2023'', ''Disposed'', ''W.P.(C) 7/2024''] \<and>
   list_all (\<lambda>t. \<not> case_shaped t) [''15/03/2023'', ''Pending''] \<and>
   case_shaped ''W.P.(C) 1040/2023'' \<and>
   filter reaches_status ([''15/03/2023'', ''Pending''] @ [''16/03/2023'', ''Disposed'', ''W.P.(C) 7/2024'']) = [''Pending'', ''Disposed''] \<and>
   map_option status (extract_case_from_row two_status_cells) = Some ''Disposed'' \<and>
   map_option filing_date (extract_case_from_row two_status_cells) = Some (Some ''2023-03-15'') \<and>
   map_option case_number (extract_case_from_row two_status_cells) = Some ''W.P.(C) 1040/2023''"
proof -
  have a: "map get_text_strip two_status_cells = [''15/03/2023'', ''Pending''] @ ''W.P.(C) 1040/2023'' # [''16/03/2023'', ''Disposed'', ''W.P.(C) 7/2024'']"
    by code_simp
  have b: "\<forall>t \<in> set [''15/03/2023'', ''Pending'']. \<not> case_shaped t" by code_simp
  have c: "case_shaped ''W.P.(C) 1040/2023''" by code_simp
  have d: "filter reaches_status ([''15/03/2023'', ''Pending''] @ [''16/03/2023'', ''Disposed'', ''W.P.(C) 7/2024'']) = [''Pending'', ''Disposed'']"
    by code_simp
  have e: "filter reaches_date ([''15/03/2023'', ''Pending''] @ [''16/03/2023'', ''Disposed'', ''W.P.(C) 7/2024'']) = [''15/03/2023'', ''16/03/2023'']"
    by code_simp
  have f: "parse_date (Some ''15/03/2023'') = Some ''2023-03-15''" by code_simp
  from status_last_wins[OF a b c] obtain r where
    r: "extract_case_from_row two_status_cells = Some r" "case_number r = ''W.P.(C) 1040/2023''"
       "status r = ''Disposed''" "filing_date r = Some ''2023-03-15''"
    unfolding d e using f by auto
  show ?thesis using a b c d r by (simp add: list_all_iff)
qed


section \<open>Facts about the matcher\<close>

lemma rmatch_suffix: "(gs, t) \<in> set (rmatch r s) \<Longrightarrow> suffix t s"
proof (induction r arbitrary: s gs t)
  case (Cls p)
  then show ?case by (auto split: list.splits if_splits simp: suffix_Cons)
next
  case (Lit ic l)
  then show ?case by (auto split: if_splits simp: suffix_drop)
next
  case (Many p lo hi)
  then show ?case by (auto simp: Let_def suffix_drop)
next
  case (Grp r)
  then show ?case by auto
next
  case (Cat a b)
  then show ?case by (fastforce intro: suffix_order.trans)
next
  case (Alt a b)
  then show ?case by auto
next
  case Eos
  then show ?case by (auto split: if_splits)
qed

lemma re_match_Some_mem: "re_match r s = Some m \<Longrightarrow> m \<in> set (rmatch r s)"
  by (auto simp: re_match_def split: list.splits)




lemma re_findall_Grp:
  "g \<in> set (re_findall (Grp r) s) \<Longrightarrow>
   \<exists>s' gs t. suffix s' s \<and> (gs, t) \<in> set (rmatch r s') \<and> g = take (length s' - length t) s'"
proof (induction s rule: length_induct)
  case (1 s)
  note eq = re_findall.simps[of "Grp r" s]
  have tl_case: ?case if "s = c # cs" "g \<in> set (re_findall (Grp r) cs)" for c cs
  proof -
    have "length cs < length s" using that by simp
    with 1(1) that(2) obtain s' gs t where
      "suffix s' cs" "(gs, t) \<in> set (rmatch r s')" "g = take (length s' - length t) s'" by blast
    then show ?thesis using that(1) by (auto simp: suffix_Cons)
  qed
  show ?case
  proof (cases "re_match (Grp r) s")
    case None
    with 1(2) eq obtain c cs where "s = c # cs" "g \<in> set (re_findall (Grp r) cs)"
      by (cases s) auto
    then show ?thesis by (rule tl_case)
  next
    case (Some m)
    obtain gs t where m: "m = (gs, t)" by (cases m)
    from re_match_Some_mem[OF Some] m obtain gs' where
      gs: "(gs', t) \<in> set (rmatch r s)" "gs = take (length s - length t) s # gs'" by auto
    have hd_case: ?thesis if "g \<in> set (take 1 gs)"
    proof -
      from that gs(2) have "g = take (length s - length t) s" by simp
      with gs(1) show ?thesis by blast
    qed
    show ?thesis
    proof (cases "length t < length s")
      case True
      with 1(2) eq Some m have "g \<in> set (take 1 gs) \<or> g \<in> set (re_findall (Grp r) t)"
        by auto
      then show ?thesis
      proof
        assume "g \<in> set (take 1 gs)" then show ?thesis by (rule hd_case)
      next
        assume a: "g \<in> set (re_findall (Grp r) t)"
        with 1(1) True obtain s' gs2 t2 where
          "suffix s' t" "(gs2, t2) \<in> set (rmatch r s')" "g = take (length s' - length t2) s'" by blast
        moreover have "suffix t s" using rmatch_suffix[OF gs(1)] .
        ultimately have "suffix s' s \<and> (gs2, t2) \<in> set (rmatch r s') \<and>
                         g = take (length s' - length t2) s'"
          using suffix_order.trans by blast
        then show ?thesis by blast
      qed
    next
      case False
      with 1(2) eq Some m
      have "g \<in> set (take 1 gs) \<or> (\<exists>c cs. s = c # cs \<and> g \<in> set (re_findall (Grp r) cs))"
        by (cases s) auto
      then show ?thesis using hd_case tl_case by blast
    qed
  qed
qed


section \<open>Every record has a case number\<close>

lemma rmatch_plus_first:
  assumes "(gs, t) \<in> set (rmatch (Cat (Many p 1 None) b) s)"
  shows "s \<noteq> [] \<and> p (hd s) \<and> length t < length s"
proof -
  from assms obtain k hs where k: "1 \<le> k" "k \<le> length (takeWhile p s)"
    and b: "(hs, t) \<in> set (rmatch b (drop k s))"
    by (auto simp: Let_def)
  from k have ne: "takeWhile p s \<noteq> []" by auto
  then have s: "s \<noteq> []" by auto
  from ne have "p (hd s)" by (cases s) (auto split: if_splits)
  moreover have "length t \<le> length (drop k s)"
    using rmatch_suffix[OF b] by (rule suffix_length_le)
  moreover have "k \<le> length s" using k(2) length_takeWhile_le[of p s] by linarith
  ultimately show ?thesis using s k(1) by (cases s) auto
qed

lemma letter_or_dot_not_space: "letter_or_dot c \<Longrightarrow> \<not> isspace c"
  by (auto simp: letter_or_dot_def isspace_def isupper_AZ_def islower_az_def code_def)

lemma strip_nonempty: "s \<noteq> [] \<Longrightarrow> \<not> isspace (hd s) \<Longrightarrow> strip s \<noteq> []"
  by (cases s) (auto simp: strip_def)

lemma text_match_nonempty:
  assumes "pattern \<in> set case_patterns" and "g \<in> set (re_findall pattern text)"
  shows "strip g \<noteq> []"
proof -
  from assms(1) obtain b where p: "pattern = Grp (Cat (Many letter_or_dot 1 None) b)"
    by (auto simp: case_patterns_def)
  from re_findall_Grp[OF assms(2)[unfolded p]] obtain s' gs t where
    m: "(gs, t) \<in> set (rmatch (Cat (Many letter_or_dot 1 None) b) s')"
    and g: "g = take (length s' - length t) s'" by blast
  from rmatch_plus_first[OF m] have "s' \<noteq> []" "letter_or_dot (hd s')" "length t < length s'"
    by auto
  then have "g \<noteq> []" "hd g = hd s'" using g by (cases s'; auto simp: take_Cons')+
  then show ?thesis using strip_nonempty letter_or_dot_not_space \<open>letter_or_dot (hd s')\<close> by metis
qed

lemma extract_from_text_nonempty:
  "r \<in> set (extract_from_text html) \<Longrightarrow> case_number r \<noteq> []"
  by (auto simp: extract_from_text_def Let_def text_record_def text_match_nonempty)

lemma extract_case_from_row_nonempty:
  "extract_case_from_row cells = Some r \<Longrightarrow> case_number r \<noteq> []"
  by (auto simp: extract_case_from_row_def Let_def split: option.splits if_splits)

lemma table_cases_nonempty: "r \<in> set (table_cases soup) \<Longrightarrow> case_number r \<noteq> []"
  by (auto simp: table_cases_def row_cases_def Let_def extract_case_from_row_nonempty
           split: if_splits option.splits)

lemma extract_case_data_nonempty:
  "extract_case_data el = Some r \<Longrightarrow> case_number r \<noteq> []"
  unfolding extract_case_data_def Let_def
  by (cases "extract_text el [''case-number'', ''case_no'', ''case_number'']")
     (auto simp del: extract_text.simps split: if_splits)

lemma extract_from_divs_nonempty: "r \<in> set (extract_from_divs soup) \<Longrightarrow> case_number r \<noteq> []"
  by (auto simp: extract_from_divs_def Let_def extract_case_data_nonempty split: option.splits)

lemma parse_search_results_nonempty:
  "r \<in> set (parse_search_results soup html) \<Longrightarrow> case_number r \<noteq> []"
  using table_cases_nonempty extract_from_text_nonempty extract_from_divs_nonempty
  by (auto simp: parse_search_results_def parse_search_results_run_def Let_def split: if_splits)

lemma row_loop_no_case:
  "\<forall>t \<in> set ts. \<not> case_shaped t \<Longrightarrow> v_case_number (row_loop ts v) = v_case_number v"
  by (induction ts arbitrary: v) (auto simp: row_step_def split: list.splits)

lemma row_without_case_number:
  "\<forall>c \<in> set cells. \<not> case_shaped (get_text_strip c) \<Longrightarrow> extract_case_from_row cells = None"
  by (simp add: extract_case_from_row_def Let_def row_loop_no_case row_init_def)

lemma element_without_case_number:
  "\<not> truthy (extract_text el [''case-number'', ''case_no'', ''case_number'']) \<Longrightarrow>
   extract_case_data el = None"
  unfolding extract_case_data_def Let_def
  by (cases "extract_text el [''case-number'', ''case_no'', ''case_number'']")
     (auto simp del: extract_text.simps simp: truthy_def)

text \<open>
  C8. Every record of the table-row, class-based and free-text strategies, hence every
  record that \<open>_parse_search_results\<close> returns, has a non-empty case number; a row
  in which no cell is case-shaped and an element in which no case number is found
  yield no record.
\<close>

theorem case_number_never_empty:
  "(\<forall>r \<in> set (table_cases soup). case_number r \<noteq> []) \<and>
   (\<forall>r \<in> set (extract_from_divs soup). case_number r \<noteq> []) \<and>
   (\<forall>r \<in> set (extract_from_text html). case_number r \<noteq> []) \<and>
   (\<forall>r \<in> set (parse_search_results soup html). case_number r \<noteq> []) \<and>
   ((\<forall>c \<in> set cells. \<not> case_shaped (get_text_strip c)) \<longrightarrow> extract_case_from_row cells = None) \<and>
   (\<not> truthy (extract_text el [''case-number'', ''case_no'', ''case_number'']) \<longrightarrow>
      extract_case_data el = None)"
  using table_cases_nonempty extract_from_divs_nonempty extract_from_text_nonempty
        parse_search_results_nonempty row_without_case_number element_without_case_number
  by blast

theorem case_number_never_empty_witness:
  "table_cases table_soup \<noteq> [] \<and> list_all (\<lambda>r. case_number r \<noteq> []) (table_cases table_soup) \<and>
   extract_from_divs example_soup \<noteq> [] \<and>
   list_all (\<lambda>r. case_number r \<noteq> []) (extract_from_divs example_soup) \<and>
   extract_from_text example_html \<noteq> [] \<and>
   list_all (\<lambda>r. case_number r \<noteq> []) (extract_from_text example_html) \<and>
   list_all (\<lambda>c. \<not> case_shaped (get_text_strip c)) plain_cells \<and>
   extract_case_from_row plain_cells = None \<and>
   \<not> truthy (extract_text empty_div [''case-number'', ''case_no'', ''case_number'']) \<and>
   extract_case_data empty_div = None"
proof -
  have a: "table_cases table_soup \<noteq> []" by code_simp
  have b: "extract_from_divs example_soup \<noteq> []" by code_simp
  have c: "extract_from_text example_html \<noteq> []" by code_simp
  have d: "\<forall>c \<in> set plain_cells. \<not> case_shaped (get_text_strip c)" by code_simp
  have e: "\<not> truthy (extract_text empty_div [''case-number'', ''case_no'', ''case_number''])"
    by code_simp
  show ?thesis
    using a b c d e case_number_never_empty[of table_soup table_html plain_cells empty_div]
          case_number_never_empty[of example_soup example_html plain_cells empty_div]
    by (simp add: list_all_iff)
qed


section \<open>The first match of a pattern on a well-shaped string\<close>

lemma re_match_Some_iff: "re_match r s = Some m \<longleftrightarrow> (\<exists>rest. rmatch r s = m # rest)"
  by (auto simp: re_match_def split: list.splits)

lemma re_match_Cat:
  assumes "re_match a s = Some (g, t)" and "re_match b t = Some (h, u)"
  shows "re_match (Cat a b) s = Some (g @ h, u)"
proof -
  from assms obtain r1 r2 where "rmatch a s = (g, t) # r1" "rmatch b t = (h, u) # r2"
    by (auto simp: re_match_Some_iff)
  then show ?thesis by (simp add: re_match_Some_iff)
qed

lemma re_match_Grp:
  "re_match r s = Some (gs, t) \<Longrightarrow> re_match (Grp r) s = Some (take (length s - length t) s # gs, t)"
  by (auto simp: re_match_Some_iff)

lemma takeWhile_run:
  "list_all p l \<Longrightarrow> t = [] \<or> \<not> p (hd t) \<Longrightarrow> takeWhile p (l @ t) = l"
  by (cases t) (auto simp: list_all_iff takeWhile_append2 takeWhile_eq_all_conv)

lemma re_match_Many_run:
  assumes "list_all p l" and "t = [] \<or> \<not> p (hd t)" and "lo \<le> length l"
  shows "re_match (Many p lo None) (l @ t) = Some ([], t)"
proof -
  have "rev [lo ..< Suc (length l)] = length l # rev [lo ..< length l]"
    using assms(3) by simp
  then show ?thesis
    using takeWhile_run[OF assms(1,2)] by (simp add: re_match_Some_iff Let_def)
qed

lemma re_match_times:
  assumes "list_all p y" and "length y = n"
  shows "re_match (Many p n (Some n)) (y @ t) = Some ([], t)"
proof -
  have "takeWhile p (y @ t) = y @ takeWhile p t"
    using assms(1) by (simp add: list_all_iff takeWhile_append2)
  then have "min n (length (takeWhile p (y @ t))) = n" using assms(2) by simp
  then show ?thesis using assms(2) by (simp add: re_match_Some_iff Let_def)
qed

lemma re_match_Lit:
  "lower l' = lower l \<Longrightarrow> length l' = length l \<Longrightarrow> re_match (Lit True l) (l' @ t) = Some ([], t)"
  by (simp add: re_match_Some_iff)

lemma re_match_empty: "re_match (Lit False []) s = Some ([], s)"
  by (simp add: re_match_Some_iff)

lemma re_match_Eos: "re_match Eos [] = Some ([], [])"
  by (simp add: re_match_Some_iff)


section \<open>Free text against the generic patterns\<close>

lemma isspace_blank: "isspace CHR '' ''"
  by (simp add: isspace_def code_def)

lemma isdigit_not_space: "isdigit c \<Longrightarrow> \<not> isspace c"
  by (auto simp: isdigit_def isspace_def)

lemma blank_not_letter: "\<not> letter_or_dot CHR '' ''"
  by (simp add: letter_or_dot_def isupper_AZ_def islower_az_def code_def)

lemma isspace_lower_char: "isspace c \<Longrightarrow> lower_char c = c"
  by (auto simp: isspace_def lower_char_def Let_def)

lemma lower_of_not_space:
  assumes "lower w = ''of''" shows "w \<noteq> [] \<and> \<not> isspace (hd w) \<and> length w = 2"
proof -
  from assms obtain a b where w: "w = [a, b]" "lower_char a = CHR ''o''"
    by (auto simp: lower_def)
  have "\<not> isspace CHR ''o''" by (simp add: isspace_def code_def)
  with w(2) isspace_lower_char[of a] have "\<not> isspace a" by auto
  with w(1) show ?thesis by simp
qed

lemma hd_digits: "d \<noteq> [] \<Longrightarrow> list_all isdigit d \<Longrightarrow> isdigit (hd d)"
  by (cases d) auto

lemma tail_year:
  "list_all isdigit y \<Longrightarrow> length y = 4 \<Longrightarrow> re_match (seq [times 4 isdigit]) y = Some ([], [])"
  using re_match_Cat[OF re_match_times[of isdigit y 4 "[]"] re_match_empty] by simp

lemma text_head:
  assumes l: "l \<noteq> []" "list_all letter_or_dot l"
      and d: "d \<noteq> []" "list_all isdigit d"
      and t: "t \<noteq> []" "\<not> isdigit (hd t)"
      and r: "re_match rest t = Some ([], [])"
  shows "re_match (Cat (plus letter_or_dot) (Cat (plus isspace) (Cat (plus isdigit) rest)))
           (l @ '' '' @ d @ t) = Some ([], [])"
proof -
  have 3: "re_match (Cat (plus isdigit) rest) (d @ t) = Some ([], [])"
    using re_match_Cat[OF re_match_Many_run[of isdigit d t 1] r] d t by (cases d) auto
  have hd: "\<not> isspace (hd (d @ t))" using hd_digits[OF d] d(1) isdigit_not_space by simp
  have 2: "re_match (Cat (plus isspace) (Cat (plus isdigit) rest)) ('' '' @ (d @ t)) = Some ([], [])"
    using re_match_Cat[OF re_match_Many_run[of isspace "'' ''" "d @ t" 1] 3] hd isspace_blank
    by simp
  have 1: "re_match (Cat (plus letter_or_dot) (Cat (plus isspace) (Cat (plus isdigit) rest)))
             (l @ ('' '' @ (d @ t))) = Some ([], [])"
    using re_match_Cat[OF re_match_Many_run[of letter_or_dot l "'' '' @ (d @ t)" 1] 2] l blank_not_letter
    by (cases l) auto
  then show ?thesis by simp
qed

lemma not_digit_chars: "\<not> isdigit CHR ''/''" "\<not> isdigit CHR ''-''" "\<not> isdigit CHR '' ''"
  by (simp_all add: isdigit_def code_def)

lemma text_pattern_slash:
  assumes "l \<noteq> []" "list_all letter_or_dot l" "d \<noteq> []" "list_all isdigit d"
          "list_all isdigit y" "length y = 4"
  shows "re_match (case_patterns ! 0) (l @ '' '' @ d @ ''/'' @ y) =
           Some ([l @ '' '' @ d @ ''/'' @ y], [])"
proof -
  have r: "re_match (seq [Lit True ''/'', times 4 isdigit]) (''/'' @ y) = Some ([], [])"
    using re_match_Cat[OF re_match_Lit[of "''/''" "''/''" y] tail_year[OF assms(5,6)]] by simp
  from re_match_Grp[OF text_head[OF assms(1-4) _ _ r]] show ?thesis
    by (simp add: case_patterns_def not_digit_chars)
qed

lemma text_pattern_dash:
  assumes "l \<noteq> []" "list_all letter_or_dot l" "d \<noteq> []" "list_all isdigit d"
          "list_all isdigit y" "length y = 4"
  shows "re_match (case_patterns ! 2) (l @ '' '' @ d @ ''-'' @ y) =
           Some ([l @ '' '' @ d @ ''-'' @ y], [])"
proof -
  have r: "re_match (seq [Lit True ''-'', times 4 isdigit]) (''-'' @ y) = Some ([], [])"
    using re_match_Cat[OF re_match_Lit[of "''-''" "''-''" y] tail_year[OF assms(5,6)]] by simp
  from re_match_Grp[OF text_head[OF assms(1-4) _ _ r]] show ?thesis
    by (simp add: case_patterns_def not_digit_chars)
qed

lemma text_pattern_of:
  assumes "l \<noteq> []" "list_all letter_or_dot l" "d \<noteq> []" "list_all isdigit d"
          "list_all isdigit y" "length y = 4" "lower w = ''of''"
  shows "re_match (case_patterns ! 1) (l @ '' '' @ d @ '' '' @ w @ '' '' @ y) =
           Some ([l @ '' '' @ d @ '' '' @ w @ '' '' @ y], [])"
proof -
  note w = lower_of_not_space[OF assms(7)]
  have y: "y \<noteq> []" using assms(6) by auto
  have hy: "\<not> isspace (hd y)" using hd_digits[OF y assms(5)] isdigit_not_space by simp
  have 4: "re_match (seq [plus isspace, times 4 isdigit]) ('' '' @ y) = Some ([], [])"
    using re_match_Cat[OF re_match_Many_run[of isspace "'' ''" y 1] tail_year[OF assms(5,6)]]
          hy isspace_blank by simp
  have 3: "re_match (seq [Lit True ''of'', plus isspace, times 4 isdigit]) (w @ ('' '' @ y)) = Some ([], [])"
  proof -
    have "lower ''of'' = ''of''" by code_simp
    then show ?thesis
      using re_match_Cat[OF re_match_Lit[of w "''of''" "'' '' @ y"] 4] assms(7) w by simp
  qed
  have 2: "re_match (seq [plus isspace, Lit True ''of'', plus isspace, times 4 isdigit])
             ('' '' @ (w @ ('' '' @ y))) = Some ([], [])"
    using re_match_Cat[OF re_match_Many_run[of isspace "'' ''" "w @ ('' '' @ y)" 1] 3]
          w isspace_blank by simp
  from re_match_Grp[OF text_head[OF assms(1-4) _ _ 2]] show ?thesis
    by (simp add: case_patterns_def not_digit_chars)
qed


lemma strip_id: "s \<noteq> [] \<Longrightarrow> \<not> isspace (hd s) \<Longrightarrow> \<not> isspace (last s) \<Longrightarrow> strip s = s"
proof -
  assume a: "s \<noteq> []" "\<not> isspace (hd s)" "\<not> isspace (last s)"
  then have 1: "dropWhile isspace s = s" by (cases s) auto
  have h: "hd (rev s) = last s" using a(1) by (simp add: hd_rev)
  have 2: "dropWhile isspace (rev s) = rev s"
  proof (cases "rev s")
    case Nil
    then show ?thesis by simp
  next
    case (Cons c cs)
    with h a(3) have "\<not> isspace c" by simp
    with Cons show ?thesis by simp
  qed
  show ?thesis by (simp add: strip_def 1 2)
qed

lemma findall_whole:
  assumes "re_match p s = Some ([s], [])" and "s \<noteq> []" and "re_match p [] = None"
  shows "re_findall p s = [s]"
  using assms by (simp add: re_findall.simps[of p s] re_findall.simps[of p "[]"])

lemma case_patterns_empty: "\<forall>p \<in> set case_patterns. re_match p [] = None"
  by code_simp

lemma text_finds:
  assumes "i < 3" and "re_match (case_patterns ! i) s = Some ([s], [])" and "s \<noteq> []"
      and "plain_text html = s"
  shows "text_record s \<in> set (extract_from_text html)"
proof -
  have len: "length case_patterns = 3" by (simp add: case_patterns_def)
  then have mem: "case_patterns ! i \<in> set case_patterns" using assms(1) by simp
  with case_patterns_empty have "re_match (case_patterns ! i) [] = None" by blast
  from findall_whole[OF assms(2,3) this] mem show ?thesis
    unfolding extract_from_text_def Let_def assms(4) by force
qed


lemma tail_year_generic:
  assumes "list_all isdigit y" "length y = 4"
  shows "re_match (seq [Grp (times 4 isdigit), Eos]) y = Some ([y], [])"
proof -
  have e: "re_match (seq [Eos]) [] = Some ([], [])"
    using re_match_Cat[OF re_match_Eos re_match_empty] by simp
  from re_match_Cat[OF re_match_Grp[OF re_match_times[OF assms, of "[]"]] e] show ?thesis by simp
qed

lemma generic_head:
  assumes l: "l \<noteq> []" "list_all letter_or_dot l"
      and d: "d \<noteq> []" "list_all isdigit d"
      and t: "t \<noteq> []" "\<not> isdigit (hd t)"
      and r: "re_match rest t = Some (gs, [])"
  shows "re_match (Cat (Grp (plus letter_or_dot)) (Cat (star isspace) (Cat (Grp (plus isdigit)) rest)))
           (l @ '' '' @ d @ t) = Some (l # d # gs, [])"
proof -
  have g3: "re_match (Grp (plus isdigit)) (d @ t) = Some ([d], t)"
    using re_match_Grp[OF re_match_Many_run[of isdigit d t 1]] d t by (cases d) auto
  have 3: "re_match (Cat (Grp (plus isdigit)) rest) (d @ t) = Some (d # gs, [])"
    using re_match_Cat[OF g3 r] by simp
  have hd: "\<not> isspace (hd (d @ t))" using hd_digits[OF d] d(1) isdigit_not_space by simp
  have 2: "re_match (Cat (star isspace) (Cat (Grp (plus isdigit)) rest)) ('' '' @ (d @ t)) =
             Some (d # gs, [])"
    using re_match_Cat[OF re_match_Many_run[of isspace "'' ''" "d @ t" 0] 3] hd isspace_blank
    by simp
  have g1: "re_match (Grp (plus letter_or_dot)) (l @ ('' '' @ (d @ t))) = Some ([l], '' '' @ (d @ t))"
    using re_match_Grp[OF re_match_Many_run[of letter_or_dot l "'' '' @ (d @ t)" 1]] l blank_not_letter
    by (cases l) auto
  from re_match_Cat[OF g1 2] show ?thesis by simp
qed

lemma generic_pattern_slash:
  assumes "l \<noteq> []" "list_all letter_or_dot l" "d \<noteq> []" "list_all isdigit d"
          "list_all isdigit y" "length y = 4"
  shows "re_match (generic_patterns ! 0) (l @ '' '' @ d @ ''/'' @ y) = Some ([l, d, y], [])"
proof -
  have r: "re_match (seq [Lit True ''/'', Grp (times 4 isdigit), Eos]) (''/'' @ y) = Some ([y], [])"
    using re_match_Cat[OF re_match_Lit[of "''/''" "''/''" y] tail_year_generic[OF assms(5,6)]] by simp
  from generic_head[OF assms(1-4) _ _ r] show ?thesis
    by (simp add: generic_patterns_def not_digit_chars)
qed

lemma generic_pattern_dash:
  assumes "l \<noteq> []" "list_all letter_or_dot l" "d \<noteq> []" "list_all isdigit d"
          "list_all isdigit y" "length y = 4"
  shows "re_match (generic_patterns ! 2) (l @ '' '' @ d @ ''-'' @ y) = Some ([l, d, y], [])"
proof -
  have r: "re_match (seq [Lit True ''-'', Grp (times 4 isdigit), Eos]) (''-'' @ y) = Some ([y], [])"
    using re_match_Cat[OF re_match_Lit[of "''-''" "''-''" y] tail_year_generic[OF assms(5,6)]] by simp
  from generic_head[OF assms(1-4) _ _ r] show ?thesis
    by (simp add: generic_patterns_def not_digit_chars)
qed

lemma generic_pattern_of:
  assumes "l \<noteq> []" "list_all letter_or_dot l" "d \<noteq> []" "list_all isdigit d"
          "list_all isdigit y" "length y = 4" "lower w = ''of''"
  shows "re_match (generic_patterns ! 1) (l @ '' '' @ d @ '' '' @ w @ '' '' @ y) =
           Some ([l, d, y], [])"
proof -
  note w = lower_of_not_space[OF assms(7)]
  have lo: "lower ''of'' = ''of''" by code_simp
  have y: "y \<noteq> []" using assms(6) by auto
  have hy: "\<not> isspace (hd y)" using hd_digits[OF y assms(5)] isdigit_not_space by simp
  have 4: "re_match (seq [star isspace, Grp (times 4 isdigit), Eos]) ('' '' @ y) = Some ([y], [])"
    using re_match_Cat[OF re_match_Many_run[of isspace "'' ''" y 0] tail_year_generic[OF assms(5,6)]]
          hy isspace_blank by simp
  have 3: "re_match (seq [Lit True ''of'', star isspace, Grp (times 4 isdigit), Eos])
             (w @ ('' '' @ y)) = Some ([y], [])"
    using re_match_Cat[OF re_match_Lit[of w "''of''" "'' '' @ y"] 4] assms(7) w lo by simp
  have 2: "re_match (seq [star isspace, Lit True ''of'', star isspace, Grp (times 4 isdigit), Eos])
             ('' '' @ (w @ ('' '' @ y))) = Some ([y], [])"
    using re_match_Cat[OF re_match_Many_run[of isspace "'' ''" "w @ ('' '' @ y)" 0] 3]
          w isspace_blank by simp
  from generic_head[OF assms(1-4) _ _ 2] show ?thesis
    by (simp add: generic_patterns_def not_digit_chars)
qed

text \<open>
  C2, as stated, fails: \<open>ABC12/2023\<close> is accepted by the first generic pattern of
  \<open>_parse_case_number\<close> (which allows no whitespace, \<open>\s*\<close>), it is its own
  plain text, and the free-text scan (which asks for whitespace, \<open>\s+\<close>) finds
  nothing in it.
\<close>

theorem free_text_counterexample:
  "re_match (generic_patterns ! 0) ''ABC12/2023'' = Some ([''ABC'', ''12'', ''2023''], []) \<and>
   plain_text ''ABC12/2023'' = ''ABC12/2023'' \<and>
   extract_from_text ''ABC12/2023'' = []"
  by code_simp

text \<open>
  C2, amended. The free-text patterns are the generic patterns without anchors and with
  \<open>\s+\<close> in place of \<open>\s*\<close>. For every string \<open>s\<close> of the form
  letters-or-dots, blank, digits, then \<open>/\<close>, \<open> of \<close> (in any letter case) or
  \<open>-\<close>, then four digits, the matching generic pattern accepts \<open>s\<close> with these
  three groups, and the free-text scan of a document whose plain text is \<open>s\<close> emits
  the minimal record for \<open>s\<close>.
\<close>

theorem free_text_finds_spaced:
  assumes "l \<noteq> []" "list_all letter_or_dot l" "d \<noteq> []" "list_all isdigit d"
          "list_all isdigit y" "length y = 4" "lower w = ''of''"
      and "(i = 0 \<and> s = l @ '' '' @ d @ ''/'' @ y) \<or>
           (i = 1 \<and> s = l @ '' '' @ d @ '' '' @ w @ '' '' @ y) \<or>
           (i = 2 \<and> s = l @ '' '' @ d @ ''-'' @ y)"
      and "plain_text html = s"
  shows "re_match (generic_patterns ! i) s = Some ([l, d, y], []) \<and>
         text_record s \<in> set (extract_from_text html) \<and>
         text_record s =
           \<lparr>case_number = s, petitioner = ''N/A'', respondent = ''N/A'', filing_date = None,
            status = ''Unknown'', court = ''Delhi High Court'', case_type = extract_case_type s,
            judge = None, next_hearing = None\<rparr>"
proof -
  have y: "y \<noteq> []" using assms(6) by auto
  have ly: "\<not> isspace (last y)"
    using assms(5) y isdigit_not_space[of "last y"] by (simp add: list_all_iff)
  have hl: "\<not> isspace (hd l)"
    using assms(1,2) letter_or_dot_not_space[of "hd l"] by (simp add: list_all_iff)
  have i: "i < 3" using assms(8) by auto
  have s: "s \<noteq> []" "hd s = hd l" "last s = last y" using assms(1,8) y by auto
  have strip: "strip s = s" using strip_id[OF s(1)] s hl ly by simp
  have t: "re_match (case_patterns ! i) s = Some ([s], [])"
    using assms(8) text_pattern_slash[OF assms(1-6)] text_pattern_of[OF assms(1-7)]
          text_pattern_dash[OF assms(1-6)] by auto
  have g: "re_match (generic_patterns ! i) s = Some ([l, d, y], [])"
    using assms(8) generic_pattern_slash[OF assms(1-6)] generic_pattern_of[OF assms(1-7)]
          generic_pattern_dash[OF assms(1-6)] by auto
  show ?thesis using g text_finds[OF i t s(1) assms(9)] strip by (simp add: text_record_def)
qed

theorem free_text_finds_spaced_witness:
  "list_all letter_or_dot ''ABC'' \<and> list_all isdigit ''12'' \<and> list_all isdigit ''2023'' \<and>
   lower ''of'' = ''of'' \<and> plain_text ''<td>ABC  12/2023</td>'' = ''ABC 12/2023'' \<and>
   re_match (generic_patterns ! 0) ''ABC 12/2023'' = Some ([''ABC'', ''12'', ''2023''], []) \<and>
   text_record ''ABC 12/2023'' \<in> set (extract_from_text ''<td>ABC  12/2023</td>'')"
proof -
  have a: "''ABC'' \<noteq> []" "list_all letter_or_dot ''ABC''" "''12'' \<noteq> []" "list_all isdigit ''12''"
    "list_all isdigit ''2023''" "length ''2023'' = 4" "lower ''of'' = ''of''"
    by code_simp+
  have b: "(0 = (0::nat) \<and> ''ABC 12/2023'' = ''ABC'' @ '' '' @ ''12'' @ ''/'' @ ''2023'') \<or>
           (0 = (1::nat) \<and> ''ABC 12/2023'' = ''ABC'' @ '' '' @ ''12'' @ '' '' @ ''of'' @ '' '' @ ''2023'') \<or>
           (0 = (2::nat) \<and> ''ABC 12/2023'' = ''ABC'' @ '' '' @ ''12'' @ ''-'' @ ''2023'')"
    by simp
  have c: "plain_text ''<td>ABC  12/2023</td>'' = ''ABC 12/2023''" by code_simp
  from free_text_finds_spaced[OF a b c]
  have g: "re_match (generic_patterns ! 0) ''ABC 12/2023'' = Some ([''ABC'', ''12'', ''2023''], [])"
    and m: "text_record ''ABC 12/2023'' \<in> set (extract_from_text ''<td>ABC  12/2023</td>'')"
    by blast+
  show ?thesis using a(2,4,5,7) c g m by blast
qed


section \<open>Dates\<close>

lemma try_formats_None:
  "\<forall>f \<in> set fs. strptime s f = None \<Longrightarrow> try_formats s fs = None"
  by (induction fs) auto

lemma try_formats_nth:
  "i < length fs \<Longrightarrow> \<forall>j<i. strptime s (fs ! j) = None \<Longrightarrow> strptime s (fs ! i) = Some dt \<Longrightarrow>
   try_formats s fs = Some (strftime_iso dt)"
proof (induction fs arbitrary: i)
  case Nil
  then show ?case by simp
next
  case (Cons f fs)
  show ?case
  proof (cases i)
    case 0
    with Cons.prems show ?thesis by simp
  next
    case (Suc k)
    with Cons.prems have "strptime s f = None" by auto
    moreover have "\<forall>j<k. strptime s (fs ! j) = None"
    proof (intro allI impI)
      fix j assume "j < k"
      then have "Suc j < i" using Suc by simp
      with Cons.prems(2) have "strptime s ((f # fs) ! Suc j) = None" by blast
      then show "strptime s (fs ! j) = None" by simp
    qed
    moreover have "k < length fs" "strptime s (fs ! k) = Some dt"
      using Cons.prems Suc by auto
    ultimately have "try_formats s fs = Some (strftime_iso dt)"
      using Cons.IH[of k] by blast
    moreover note \<open>strptime s f = None\<close>
    ultimately show ?thesis by simp
  qed
qed

lemma try_formats_Some:
  "try_formats s fs = Some out \<Longrightarrow> \<exists>f \<in> set fs. \<exists>dt. strptime s f = Some dt \<and> out = strftime_iso dt"
  by (induction fs) (auto split: option.splits)

lemma strptime_valid: "strptime s f = Some (y, m, d) \<Longrightarrow> valid_date y m d"
  by (auto simp: strptime_def Let_def split: option.splits if_splits prod.splits)

lemma code_digit_char: "k < 10 \<Longrightarrow> code (digit_char k) = 48 + k"
  by (simp add: code_def digit_char_def)

lemma isdigit_digit_char: "k < 10 \<Longrightarrow> isdigit (digit_char k)"
  by (simp add: isdigit_def code_digit_char)

lemma strftime_iso_from_1000:
  "1000 \<le> y \<Longrightarrow> strftime_iso (y, m, d) = pad4 y @ ''-'' @ pad2 m @ ''-'' @ pad2 d"
  by (simp add: strftime_iso_def year_str_def)

lemma length_year_str: "length (year_str y) = 4 \<longleftrightarrow> 1000 \<le> y"
  by (simp add: year_str_def pad4_def)

lemma iso_shaped_strftime: "1000 \<le> y \<Longrightarrow> iso_shaped (strftime_iso (y, m, d))"
  by (simp add: iso_shaped_def strftime_iso_from_1000 pad4_def pad2_def isdigit_digit_char)

lemma iso_shaped_year: "iso_shaped (strftime_iso (y, m, d)) \<Longrightarrow> 1000 \<le> y"
proof -
  assume "iso_shaped (strftime_iso (y, m, d))"
  then have "length (strftime_iso (y, m, d)) = 10" by (simp add: iso_shaped_def)
  then have "length (year_str y) = 4" by (simp add: strftime_iso_def pad2_def)
  then show ?thesis by (simp only: length_year_str)
qed

lemma parse_date_Some:
  assumes "parse_date x = Some out"
  shows "\<exists>y m d. valid_date y m d \<and> out = strftime_iso (y, m, d)"
proof -
  from assms obtain s where "try_formats (strip s) date_formats = Some out"
    by (auto simp: parse_date_def split: option.splits if_splits)
  from try_formats_Some[OF this] obtain f dt where "strptime (strip s) f = Some dt"
    "out = strftime_iso dt" by blast
  then show ?thesis using strptime_valid by (cases dt) blast
qed


lemma digit_chars:
  "digit_char 0 = CHR ''0''" "digit_char 1 = CHR ''1''" "digit_char 2 = CHR ''2''"
  "digit_char 3 = CHR ''3''" "digit_char 4 = CHR ''4''" "digit_char 5 = CHR ''5''"
  "digit_char 6 = CHR ''6''" "digit_char 7 = CHR ''7''" "digit_char 8 = CHR ''8''"
  "digit_char 9 = CHR ''9''" "digit_char (Suc 0) = CHR ''1''"
  by code_simp+

lemma month_match:
  assumes "1 \<le> m" "m \<le> 12"
  shows "re_match (directive_rx CHR ''m'') (pad2 m @ t) = Some ([pad2 m], t)"
proof -
  from assms have "m \<in> {1, 2, 3, 4, 5, 6, 7, 8, 9, 10, 11, 12}"
    unfolding insert_iff empty_iff by presburger
  then show ?thesis
    by (elim insertE emptyE; simp add: pad2_def digit_chars directive_rx_def re_match_def one_of_def)
qed

lemma day_match:
  assumes "1 \<le> d" "d \<le> 31"
  shows "re_match (directive_rx CHR ''d'') (pad2 d @ t) = Some ([pad2 d], t)"
proof -
  from assms have "d \<in> {1, 2, 3, 4, 5, 6, 7, 8, 9, 10, 11, 12, 13, 14, 15, 16, 17, 18, 19, 20,
                         21, 22, 23, 24, 25, 26, 27, 28, 29, 30, 31}"
    unfolding insert_iff empty_iff by presburger
  then show ?thesis
    by (elim insertE emptyE;
        simp add: pad2_def digit_chars directive_rx_def re_match_def one_of_def isdigit_def code_def)
qed

lemma year_match:
  assumes "isdigit a" "isdigit b" "isdigit c" "isdigit e"
  shows "re_match (directive_rx CHR ''Y'') ([a, b, c, e] @ t) = Some ([[a, b, c, e]], t)"
  using assms by (simp add: directive_rx_def re_match_def)


lemma re_match_Lit_exact: "re_match (Lit False l) (l @ t) = Some ([], t)"
  by (simp add: re_match_Some_iff)

lemma iso_match:
  assumes "valid_date y m d" and "1000 \<le> y"
  shows "re_match (format_rx ''%Y-%m-%d'') (strftime_iso (y, m, d)) =
           Some ([pad4 y, pad2 m, pad2 d], [])"
proof -
  from assms have m: "1 \<le> m" "m \<le> 12" and d: "1 \<le> d" "d \<le> 31"
    by (auto simp: valid_date_def days_in_month_def split: if_splits)
  have 5: "re_match (Cat (directive_rx CHR ''d'') (Lit False [])) (pad2 d @ []) = Some ([pad2 d], [])"
    using re_match_Cat[OF day_match[OF d, of "[]"] re_match_empty] by simp
  have 4: "re_match (Cat (Lit False ''-'') (Cat (directive_rx CHR ''d'') (Lit False [])))
             (''-'' @ pad2 d) = Some ([pad2 d], [])"
    using re_match_Cat[OF re_match_Lit_exact[of "''-''" "pad2 d"]] 5 by simp
  have 3: "re_match (Cat (directive_rx CHR ''m'')
             (Cat (Lit False ''-'') (Cat (directive_rx CHR ''d'') (Lit False []))))
             (pad2 m @ ''-'' @ pad2 d) = Some ([pad2 m, pad2 d], [])"
    using re_match_Cat[OF month_match[OF m, of "''-'' @ pad2 d"] 4] by simp
  have 2: "re_match (Cat (Lit False ''-'') (Cat (directive_rx CHR ''m'')
             (Cat (Lit False ''-'') (Cat (directive_rx CHR ''d'') (Lit False [])))))
             (''-'' @ pad2 m @ ''-'' @ pad2 d) = Some ([pad2 m, pad2 d], [])"
    using re_match_Cat[OF re_match_Lit_exact[of "''-''" "pad2 m @ ''-'' @ pad2 d"] 3] by simp
  have y: "re_match (directive_rx CHR ''Y'') (pad4 y @ (''-'' @ pad2 m @ ''-'' @ pad2 d)) =
             Some ([pad4 y], ''-'' @ pad2 m @ ''-'' @ pad2 d)"
    unfolding pad4_def by (rule year_match) (simp_all add: isdigit_digit_char)
  from re_match_Cat[OF y 2] show ?thesis by (simp add: strftime_iso_from_1000[OF assms(2)])
qed

lemma strip_digits: "list_all isdigit s \<Longrightarrow> strip s = s"
proof -
  assume a: "list_all isdigit s"
  then have n: "\<forall>c \<in> set s. \<not> isspace c" using isdigit_not_space by (auto simp: list_all_iff)
  then have 1: "dropWhile isspace s = s" by (cases s) auto
  from n have 2: "dropWhile isspace (rev s) = rev s" by (cases "rev s") auto
  show ?thesis by (simp add: strip_def 1 2)
qed

lemma py_int_pad2: "n < 100 \<Longrightarrow> py_int (pad2 n) = n"
proof -
  assume n: "n < 100"
  have "strip (pad2 n) = pad2 n"
    by (rule strip_digits) (simp add: pad2_def isdigit_digit_char)
  then show ?thesis using n by (simp add: py_int_def pad2_def code_digit_char)
qed

lemma py_int_pad4: "n < 10000 \<Longrightarrow> py_int (pad4 n) = n"
proof -
  assume n: "n < 10000"
  have "strip (pad4 n) = pad4 n"
    by (rule strip_digits) (simp add: pad4_def isdigit_digit_char)
  moreover have "10 * (10 * (10 * (n div 1000 mod 10) + n div 100 mod 10) + n div 10 mod 10) + n mod 10 = n"
  proof -
    have f1: "n = 10 * (n div 10) + n mod 10" by simp
    have "n div 100 = n div 10 div 10" by (simp add: div_mult2_eq)
    then have f2: "n div 10 = 10 * (n div 100) + n div 10 mod 10" by simp
    have "n div 1000 = n div 100 div 10" by (simp add: div_mult2_eq)
    then have f3: "n div 100 = 10 * (n div 1000) + n div 100 mod 10" by simp
    have f4: "n div 1000 mod 10 = n div 1000" using n by simp
    have g: "10 * (10 * (10 * c + rb) + ra) + rn = n"
      if "n = 10 * a + rn" "a = 10 * b + ra" "b = 10 * c + rb" for a b c ra rb rn :: nat
      using that by simp
    show ?thesis unfolding f4 by (rule g[OF f1 f2 f3])
  qed
  ultimately show ?thesis using n by (simp add: py_int_def pad4_def code_digit_char)
qed

lemma strptime_iso:
  assumes "valid_date y m d" and "1000 \<le> y"
  shows "strptime (strftime_iso (y, m, d)) ''%Y-%m-%d'' = Some (y, m, d)"
proof -
  from assms have b: "y < 10000" "m < 100" "d < 100"
    by (auto simp: valid_date_def days_in_month_def split: if_splits)
  show ?thesis
    unfolding strptime_def iso_match[OF assms]
    using assms(1) by (simp add: py_int_pad2 py_int_pad4 b)
qed

lemma day_rests:
  "(gs, t) \<in> set (rmatch (directive_rx CHR ''d'') (a # b # rest)) \<Longrightarrow> t = b # rest \<or> t = rest"
  by (auto simp: directive_rx_def split: if_splits)

lemma re_match_None_iff: "re_match r s = None \<longleftrightarrow> rmatch r s = []"
  by (simp add: re_match_def split: list.splits)

lemma rmatch_Cat_Nil:
  "(\<And>gs t. (gs, t) \<in> set (rmatch a s) \<Longrightarrow> rmatch b t = []) \<Longrightarrow> rmatch (Cat a b) s = []"
  by auto

lemma day_then_sep_fails:
  assumes "b \<noteq> sep" "c \<noteq> sep"
  shows "re_match (Cat (directive_rx CHR ''d'') (Cat (Lit False [sep]) r)) (a # b # c # rest) = None"
proof -
  have "rmatch (Cat (directive_rx CHR ''d'') (Cat (Lit False [sep]) r)) (a # b # c # rest) = []"
  proof (rule rmatch_Cat_Nil)
    fix gs t
    assume "(gs, t) \<in> set (rmatch (directive_rx CHR ''d'') (a # b # c # rest))"
    from day_rests[OF this] assms show "rmatch (Cat (Lit False [sep]) r) t = []" by auto
  qed
  then show ?thesis by (simp only: re_match_None_iff)
qed

lemma isdigit_not_sep: "isdigit c \<Longrightarrow> c \<noteq> CHR ''/'' \<and> c \<noteq> CHR ''-''"
  by (auto simp: isdigit_def code_def)

lemma strptime_iso_slash:
  assumes "1000 \<le> y"
  shows "strptime (strftime_iso (y, m, d)) ''%d/%m/%Y'' = None"
proof -
  have "re_match (format_rx ''%d/%m/%Y'') (strftime_iso (y, m, d)) = None"
    using day_then_sep_fails[of _ "CHR ''/''"] isdigit_not_sep isdigit_digit_char
    by (simp add: strftime_iso_from_1000[OF assms] pad4_def)
  then show ?thesis by (simp add: strptime_def)
qed

lemma strptime_iso_dash:
  assumes "1000 \<le> y"
  shows "strptime (strftime_iso (y, m, d)) ''%d-%m-%Y'' = None"
proof -
  have "re_match (format_rx ''%d-%m-%Y'') (strftime_iso (y, m, d)) = None"
    using day_then_sep_fails[of _ "CHR ''-''"] isdigit_not_sep isdigit_digit_char
    by (simp add: strftime_iso_from_1000[OF assms] pad4_def)
  then show ?thesis by (simp add: strptime_def)
qed

lemma parse_date_iso:
  assumes "valid_date y m d" and "1000 \<le> y"
  shows "parse_date (Some (strftime_iso (y, m, d))) = Some (strftime_iso (y, m, d))"
proof -
  note iso = strftime_iso_from_1000[OF assms(2), of m d]
  have ne: "strftime_iso (y, m, d) \<noteq> []" by (simp add: iso pad4_def)
  have "hd (strftime_iso (y, m, d)) = digit_char (y div 1000 mod 10)"
       "last (strftime_iso (y, m, d)) = digit_char (d mod 10)"
    by (simp_all add: iso pad4_def pad2_def)
  then have "\<not> isspace (hd (strftime_iso (y, m, d)))" "\<not> isspace (last (strftime_iso (y, m, d)))"
    using isdigit_not_space isdigit_digit_char by simp_all
  then have st: "strip (strftime_iso (y, m, d)) = strftime_iso (y, m, d)"
    using ne strip_id by blast
  show ?thesis
    using ne by (simp add: parse_date_def truthy_def st date_formats_def
                   strptime_iso_slash[OF assms(2)] strptime_iso_dash[OF assms(2)]
                   strptime_iso[OF assms])
qed

lemma parse_date_again:
  assumes "parse_date x = Some out" and "iso_shaped out"
  shows "parse_date (Some out) = Some out"
proof -
  from parse_date_Some[OF assms(1)] obtain y m d where
    v: "valid_date y m d" and o: "out = strftime_iso (y, m, d)" by blast
  from assms(2) o have "1000 \<le> y" using iso_shaped_year by blast
  from parse_date_iso[OF v this] o show ?thesis by simp
qed

lemma parse_date_order:
  "date_formats = [''%d/%m/%Y'', ''%d-%m-%Y'', ''%Y-%m-%d'', ''%d/%m/%y'', ''%d-%m-%y'', ''%Y/%m/%d''] \<and>
   parse_date None = None \<and> parse_date (Some []) = None \<and>
   ((\<forall>fmt \<in> set date_formats. strptime (strip s) fmt = None) \<longrightarrow> parse_date (Some s) = None) \<and>
   (s \<noteq> [] \<and> i < length date_formats \<and>
    (\<forall>j<i. strptime (strip s) (date_formats ! j) = None) \<and>
    strptime (strip s) (date_formats ! i) = Some dt
      \<longrightarrow> parse_date (Some s) = Some (strftime_iso dt)) \<and>
   parse_date (Some ''15/03/2023'') = Some ''2023-03-15'' \<and>
   parse_date (Some ''2023-03-15'') = Some ''2023-03-15''"
proof -
  have a: "parse_date None = None" "parse_date (Some []) = None"
    by (simp_all add: parse_date_def)
  have b: "parse_date (Some s) = None" if "\<forall>fmt \<in> set date_formats. strptime (strip s) fmt = None"
    using try_formats_None[OF that] by (simp add: parse_date_def)
  have c: "parse_date (Some s) = Some (strftime_iso dt)"
    if "s \<noteq> []" "i < length date_formats" "\<forall>j<i. strptime (strip s) (date_formats ! j) = None"
       "strptime (strip s) (date_formats ! i) = Some dt"
    using try_formats_nth[OF that(2,3,4)] that(1) by (simp add: parse_date_def)
  have e: "parse_date (Some ''15/03/2023'') = Some ''2023-03-15''" by code_simp
  have f: "parse_date (Some ''2023-03-15'') = Some ''2023-03-15''" by code_simp
  show ?thesis using a b c e f by (simp add: date_formats_def)
qed

text \<open>
  C5. \<open>_parse_date\<close> tries the six formats in the fixed order, returns \<open>None\<close> for
  empty input and when every format fails, and normalises the two dates of the example
  to \<open>2023-03-15\<close> (\<open>parse_date_order\<close>). The output is to be rendered as
  \<open>YYYY-MM-DD\<close> always, as the docstring of \<open>_parse_date\<close> says too; the code does
  not do so for a year below 1000: the date-shaped cell text \<open>1/1/0099\<close> is rendered
  as \<open>99-01-01\<close>.
\<close>

theorem parse_date_year_below_1000:
  "date_shaped ''1/1/0099'' \<and>
   strptime ''1/1/0099'' ''%d/%m/%Y'' = Some (99, 1, 1) \<and>
   parse_date (Some ''1/1/0099'') = Some ''99-01-01'' \<and>
   \<not> iso_shaped ''99-01-01''"
  by code_simp

text \<open>
  C6. Parsing the result of \<open>_parse_date\<close> again is to return it unchanged. It does
  whenever the first result has the form \<open>YYYY-MM-DD\<close> (\<open>parse_date_again\<close>); for a
  year below 1000 the first result is shorter, and the second pass rejects it
  (\<open>1/1/0099\<close>) or reads another date from it (\<open>1/2/0003\<close>).
\<close>

theorem parse_date_twice_below_1000:
  "parse_date (Some ''1/1/0099'') = Some ''99-01-01'' \<and>
   parse_date (parse_date (Some ''1/1/0099'')) = None \<and>
   parse_date (Some ''1/2/0003'') = Some ''3-02-01'' \<and>
   parse_date (parse_date (Some ''1/2/0003'')) = Some ''2001-02-03''"
  by code_simp

end
